theory Spec2Isabelle
  imports Main "HOL-Library.Sublist"
begin

section \<open>Strings of the source language\<close>

text \<open>
  The library under verification, the core of text segmentation, search, highlighting and
  export, works on JavaScript strings. A string is modelled as a \<^typ>\<open>string\<close>,
  one \<^typ>\<open>char\<close> per UTF-16 code unit; the code units covered are those below 256
  (the Latin-1 range), for which case mapping, white space and line terminators are
  written out below as ECMAScript defines them.
\<close>

abbreviation LF :: char where "LF \<equiv> CHR 0x0A"
abbreviation CR :: char where "CR \<equiv> CHR 0x0D"

definition isWhiteSpace :: "char \<Rightarrow> bool" where
  \<comment> \<open>the characters removed by \<^verbatim>\<open>trim()\<close> and matched by \<^verbatim>\<open>\s\<close>: TAB, LF, VT, FF, CR, SP, NBSP\<close>
  "isWhiteSpace c \<longleftrightarrow> c \<in> {CHR 0x09, CHR 0x0A, CHR 0x0B, CHR 0x0C, CHR 0x0D, CHR 0x20, CHR 0xA0}"

definition isLineTerminator :: "char \<Rightarrow> bool" where
  \<comment> \<open>the characters that \<^verbatim>\<open>.\<close> does not match in a pattern without the \<^verbatim>\<open>s\<close> flag\<close>
  "isLineTerminator c \<longleftrightarrow> c = LF \<or> c = CR"

definition toLowerChar :: "char \<Rightarrow> char" where
  \<comment> \<open>A-Z, and the Latin-1 capitals 0xC0-0xDE other than the multiplication sign 0xD7\<close>
  "toLowerChar c =
     (let n = (of_char c :: nat) in
      if (0x41 \<le> n \<and> n \<le> 0x5A) \<or> (0xC0 \<le> n \<and> n \<le> 0xDE \<and> n \<noteq> 0xD7)
      then char_of (n + 0x20) else c)"

definition toLowerCase :: "string \<Rightarrow> string" where
  "toLowerCase s = map toLowerChar s"

definition trim :: "string \<Rightarrow> string" where
  "trim s = rev (dropWhile isWhiteSpace (rev (dropWhile isWhiteSpace s)))"

fun startsWith :: "string \<Rightarrow> string \<Rightarrow> bool" where
  "startsWith s [] = True"
| "startsWith [] (p # ps) = False"
| "startsWith (c # cs) (p # ps) = (c = p \<and> startsWith cs ps)"

definition endsWith :: "string \<Rightarrow> string \<Rightarrow> bool" where
  "endsWith s p = startsWith (rev s) (rev p)"

fun includes_str :: "string \<Rightarrow> string \<Rightarrow> bool" where
  \<comment> \<open>\<^verbatim>\<open>s.includes(t)\<close>: \<open>t\<close> occurs in \<open>s\<close> as a contiguous substring\<close>
  "includes_str [] t = (t = [])"
| "includes_str (c # cs) t = (startsWith (c # cs) t \<or> includes_str cs t)"

fun split_from :: "string \<Rightarrow> string \<Rightarrow> string \<Rightarrow> string list" where
  \<comment> \<open>the pieces of the text from the current piece \<open>acc\<close> on; the separator is not empty\<close>
  "split_from sep acc [] = [acc]"
| "split_from sep acc (c # cs) =
     (if startsWith (c # cs) sep
      then acc # split_from sep [] (drop (length sep - 1) cs)
      else split_from sep (acc @ [c]) cs)"

definition split_str :: "string \<Rightarrow> string \<Rightarrow> string list" where
  \<comment> \<open>\<^verbatim>\<open>s.split(sep)\<close> for a string separator; the empty separator splits into code units\<close>
  "split_str sep s = (if sep = [] then map (\<lambda>c. [c]) s else split_from sep [] s)"

definition join :: "string \<Rightarrow> string list \<Rightarrow> string" where
  \<comment> \<open>\<^verbatim>\<open>parts.join(sep)\<close>\<close>
  "join sep parts = (case parts of [] \<Rightarrow> [] | p # ps \<Rightarrow> p @ concat (map (\<lambda>q. sep @ q) ps))"

section \<open>Segmentation: \<^verbatim>\<open>splitTextIntoParagraphs\<close>\<close>

fun replaceCRLF :: "string \<Rightarrow> string" where
  \<comment> \<open>\<^verbatim>\<open>.replace(/\r\n/g, '\n')\<close>\<close>
  "replaceCRLF (c # d # ds) =
     (if c = CR \<and> d = LF then LF # replaceCRLF ds else c # replaceCRLF (d # ds))"
| "replaceCRLF cs = cs"

definition replaceCR :: "string \<Rightarrow> string" where
  \<comment> \<open>\<^verbatim>\<open>.replace(/\r/g, '\n')\<close>\<close>
  "replaceCR s = map (\<lambda>c. if c = CR then LF else c) s"

definition normalizeLineEndings :: "string \<Rightarrow> string" where
  "normalizeLineEndings text = replaceCR (replaceCRLF text)"

fun countMatches :: "string \<Rightarrow> string \<Rightarrow> nat" where
  \<comment> \<open>\<^verbatim>\<open>(s.match(/lit/g) || []).length\<close> for a literal, non-empty pattern\<close>
  "countMatches lit [] = 0"
| "countMatches lit (c # cs) =
     (if startsWith (c # cs) lit then Suc (countMatches lit (drop (length lit - 1) cs))
      else countMatches lit cs)"

definition blankGap :: "string \<Rightarrow> nat option" where
  \<comment> \<open>After a line break, what \<^verbatim>\<open>\s*\n\<close> consumes: the white space up to the last line
      break of the white-space run that follows (the greedy \<^verbatim>\<open>\s*\<close> gives characters back
      until a line break follows it); no match when that run holds no line break.\<close>
  "blankGap cs =
     (let ws = takeWhile isWhiteSpace cs
      in if LF \<in> set ws then Some (length ws - length (takeWhile (\<lambda>x. x \<noteq> LF) (rev ws)))
         else None)"

fun split_blank :: "string \<Rightarrow> string \<Rightarrow> string list" where
  \<comment> \<open>\<^verbatim>\<open>s.split(/\n\s*\n/)\<close>, from the current piece \<open>acc\<close> on\<close>
  "split_blank acc [] = [acc]"
| "split_blank acc (c # cs) =
     (case (if c = LF then blankGap cs else None) of
        Some n \<Rightarrow> acc # split_blank [] (drop n cs)
      | None \<Rightarrow> split_blank (acc @ [c]) cs)"

definition allWhiteSpace :: "string \<Rightarrow> bool" where
  "allWhiteSpace s = list_all isWhiteSpace s"

definition isHeadingMarker :: "string \<Rightarrow> bool" where
  \<comment> \<open>\<^verbatim>\<open>/^#+\s*$/\<close>\<close>
  "isHeadingMarker t \<longleftrightarrow>
     takeWhile (\<lambda>c. c = CHR ''#'') t \<noteq> [] \<and> allWhiteSpace (dropWhile (\<lambda>c. c = CHR ''#'') t)"

definition isBulletMarker :: "string \<Rightarrow> bool" where
  \<comment> \<open>\<^verbatim>\<open>/^[-*+]\s*$/\<close>\<close>
  "isBulletMarker t \<longleftrightarrow>
     (case t of [] \<Rightarrow> False
      | c # cs \<Rightarrow> (c = CHR ''-'' \<or> c = CHR ''*'' \<or> c = CHR ''+'') \<and> allWhiteSpace cs)"

definition isFenceMarker :: "string \<Rightarrow> bool" where
  \<comment> \<open>\<^verbatim>\<open>/^```\s*$/\<close>\<close>
  "isFenceMarker t \<longleftrightarrow> startsWith t ''```'' \<and> allWhiteSpace (drop 3 t)"

definition isSeparatorRule :: "string \<Rightarrow> bool" where
  \<comment> \<open>\<^verbatim>\<open>/^---+\s*$/\<close>\<close>
  "isSeparatorRule t \<longleftrightarrow>
     startsWith t ''--'' \<and> takeWhile (\<lambda>c. c = CHR ''-'') (drop 2 t) \<noteq> []
       \<and> allWhiteSpace (dropWhile (\<lambda>c. c = CHR ''-'') (drop 2 t))"

definition isMeaningfulLine :: "string \<Rightarrow> bool" where
  "isMeaningfulLine p \<longleftrightarrow>
     (let trimmed = trim p
      in length trimmed > 10 \<and> \<not> isHeadingMarker trimmed \<and> \<not> isBulletMarker trimmed
         \<and> \<not> allWhiteSpace trimmed \<and> \<not> isFenceMarker trimmed \<and> \<not> isSeparatorRule trimmed)"

datatype splitter = SplitString string | SplitBlankLines

record split_method =
  name :: string
  splitter :: splitter
  result :: "string list"

record method_report =
  reportName :: string
  paragraphCount :: nat
  avgLength :: nat
  sample :: "string list"

record split_info =
  originalLength :: nat
  normalizedLength :: nat
  hasCarriageReturns :: bool
  hasWindowsLineEndings :: bool
  doubleNewlineCount :: nat
  singleNewlineCount :: nat
  chosenMethod :: string
  splitMethods :: "method_report list"

record split_result =
  paragraphs :: "string list"
  splitInfo :: split_info

definition singleNewlineMethod :: "string \<Rightarrow> split_method" where
  "singleNewlineMethod normalizedText =
     \<lparr> name = ''Single newline ('' @ [CHR 0x5C] @ ''n) - Standard'',
       splitter = SplitString [LF],
       result = filter (\<lambda>p. let trimmed = trim p in length trimmed > 0 \<and> length trimmed \<ge> 3)
                  (split_str [LF] normalizedText) \<rparr>"

definition doubleNewlineMethod :: "string \<Rightarrow> split_method" where
  "doubleNewlineMethod normalizedText =
     \<lparr> name = ''Double newline ('' @ [CHR 0x5C] @ ''n'' @ [CHR 0x5C] @ ''n) - Spaced paragraphs'',
       splitter = SplitString [LF, LF],
       result = filter (\<lambda>p. length (trim p) > 0) (split_str [LF, LF] normalizedText) \<rparr>"

definition meaningfulLinesMethod :: "string \<Rightarrow> split_method" where
  "meaningfulLinesMethod normalizedText =
     \<lparr> name = ''Meaningful lines (length > 10)'',
       splitter = SplitString [LF],
       result = filter isMeaningfulLine (split_str [LF] normalizedText) \<rparr>"

definition paragraphBlocksMethod :: "string \<Rightarrow> split_method" where
  "paragraphBlocksMethod normalizedText =
     \<lparr> name = ''Paragraph blocks (empty line separated)'',
       splitter = SplitBlankLines,
       result = filter (\<lambda>p. length (trim p) > 0) (split_blank [] normalizedText) \<rparr>"

definition reportOf :: "split_method \<Rightarrow> method_report" where
  \<comment> \<open>\<^verbatim>\<open>Math.round\<close> of the quotient rounds a half up\<close>
  "reportOf m =
     \<lparr> reportName = name m,
       paragraphCount = length (result m),
       avgLength = (if length (result m) > 0
                    then (2 * sum_list (map length (result m)) + length (result m))
                           div (2 * length (result m))
                    else 0),
       sample = map (\<lambda>p. take 100 p @ (if length p > 100 then ''...'' else []))
                  (take 3 (result m)) \<rparr>"

text \<open>
  The source compares counts with \<^verbatim>\<open>singleNewlineCount * 0.8\<close>,
  \<^verbatim>\<open>chosenMethod.result.length / 5\<close> and \<^verbatim>\<open>... / 3\<close> in double precision. The counts are
  array lengths (below \<open>2^32\<close>): for such \<open>a\<close> the double nearest to \<open>a * 0.8\<close> is \<open>4a/5\<close> itself
  when that is an integer and otherwise lies strictly between the same two integers as \<open>4a/5\<close>,
  and likewise for the quotients, so for an integer \<open>c\<close> the tests are \<open>5c < 4a\<close>, \<open>5b < n\<close> and
  \<open>3c < n\<close> on natural numbers.
\<close>

definition initialChoice ::
  "split_method \<Rightarrow> split_method \<Rightarrow> split_method \<Rightarrow> split_method \<Rightarrow> split_method" where
  \<comment> \<open>lines 130-144; the arguments are \<^verbatim>\<open>methods[0]\<close> .. \<^verbatim>\<open>methods[3]\<close>\<close>
  "initialChoice m0 m1 m2 m3 =
     (let meaningfulLinesCount = length (result m2);
          singleNewlineCount = length (result m0);
          doubleNewlineCount = length (result m1);
          paragraphBlocksCount = length (result m3)
      in if meaningfulLinesCount > 5 \<and> 5 * meaningfulLinesCount < 4 * singleNewlineCount then m2
         else if singleNewlineCount > doubleNewlineCount \<and> singleNewlineCount > 3 then m0
         else if doubleNewlineCount > 3 then m1
         else if paragraphBlocksCount > doubleNewlineCount then m3
         else m0)"

definition safetyTooMany :: "split_method \<Rightarrow> split_method \<Rightarrow> split_method \<Rightarrow> split_method" where
  \<comment> \<open>lines 147-153\<close>
  "safetyTooMany m1 m2 chosen =
     (let meaningfulLinesCount = length (result m2);
          doubleNewlineCount = length (result m1)
      in if length (result chosen) > 500 then
           (if doubleNewlineCount > 0 \<and> 5 * doubleNewlineCount < length (result chosen) then m1
            else if meaningfulLinesCount > 0 \<and> 3 * meaningfulLinesCount < length (result chosen)
            then m2
            else chosen)
         else chosen)"

definition safetyTooFew :: "split_method \<Rightarrow> nat \<Rightarrow> split_method \<Rightarrow> split_method" where
  \<comment> \<open>lines 155-159\<close>
  "safetyTooFew m0 normalizedLen chosen =
     (let singleNewlineCount = length (result m0)
      in if length (result chosen) < 5 \<and> normalizedLen > 1000 then
           (if singleNewlineCount > length (result chosen) * 2 then m0 else chosen)
         else chosen)"

definition chooseMethod :: "string \<Rightarrow> split_method" where
  \<comment> \<open>the value of \<^verbatim>\<open>chosenMethod\<close> at line 161\<close>
  "chooseMethod normalizedText =
     (let m0 = singleNewlineMethod normalizedText;
          m1 = doubleNewlineMethod normalizedText;
          m2 = meaningfulLinesMethod normalizedText;
          m3 = paragraphBlocksMethod normalizedText
      in safetyTooFew m0 (length normalizedText)
           (safetyTooMany m1 m2 (initialChoice m0 m1 m2 m3)))"

definition splitTextIntoParagraphs :: "string \<Rightarrow> split_result" where
  "splitTextIntoParagraphs text =
     (let normalizedText = normalizeLineEndings text;
          chosen = chooseMethod normalizedText
      in \<lparr> paragraphs = result chosen,
           splitInfo =
             \<lparr> originalLength = length text,
               normalizedLength = length normalizedText,
               hasCarriageReturns = includes_str text [CR],
               hasWindowsLineEndings = includes_str text [CR, LF],
               doubleNewlineCount = countMatches [LF, LF] normalizedText,
               singleNewlineCount = countMatches [LF] normalizedText,
               chosenMethod = name chosen,
               splitMethods = map reportOf
                 [singleNewlineMethod normalizedText, doubleNewlineMethod normalizedText,
                  meaningfulLinesMethod normalizedText, paragraphBlocksMethod normalizedText] \<rparr> \<rparr>)"

section \<open>Regular expressions built from user input\<close>

text \<open>
  Two places of the source build a \<^verbatim>\<open>RegExp\<close> from the search term at run time:
  \<^verbatim>\<open>searchInFiles\<close> (line 250) passes the term as it is, \<^verbatim>\<open>applyHighlightToSegments\<close>
  (line 395) escapes it first and wraps it in one capturing group. The constructor is
  modelled on the fragment of the pattern syntax these calls need: an ordinary character,
  a backslash followed by a syntax character (both match that character), a dot (any
  character but a line terminator) and parentheses, which must nest properly or the
  constructor throws a \<^verbatim>\<open>SyntaxError\<close>. A pattern that uses any other construct (a
  quantifier, a class, an alternative, an assertion, another escape) is reported as
  \<open>UnmodelledPattern\<close>: the model says nothing about it.
\<close>

datatype error = SyntaxError | UnmodelledPattern

datatype token = TChar char | TDot | TOpen | TClose

datatype atom = Lit char | AnyChar

abbreviation backslash :: char where "backslash \<equiv> CHR 0x5C"

definition isSyntaxCharacter :: "char \<Rightarrow> bool" where
  \<comment> \<open>\<^verbatim>\<open>^ $ \ . * + ? ( ) [ ] { } |\<close>\<close>
  "isSyntaxCharacter c \<longleftrightarrow>
     c \<in> {CHR ''^'', CHR ''$'', backslash, CHR ''.'', CHR ''*'', CHR ''+'', CHR ''?'',
          CHR ''('', CHR '')'', CHR ''['', CHR '']'', CHR ''{'', CHR ''}'', CHR ''|''}"

fun tokenize :: "string \<Rightarrow> token list option" where
  "tokenize [] = Some []"
| "tokenize (c # cs) =
     (if c = backslash then
        (case cs of
           [] \<Rightarrow> None
         | d # ds \<Rightarrow> if isSyntaxCharacter d then map_option ((#) (TChar d)) (tokenize ds) else None)
      else if c = CHR ''.'' then map_option ((#) TDot) (tokenize cs)
      else if c = CHR ''('' then map_option ((#) TOpen) (tokenize cs)
      else if c = CHR '')'' then map_option ((#) TClose) (tokenize cs)
      else if isSyntaxCharacter c then None
      else map_option ((#) (TChar c)) (tokenize cs))"

fun balanced :: "nat \<Rightarrow> token list \<Rightarrow> bool" where
  \<comment> \<open>every group that is opened is closed, and nothing is closed that was not opened\<close>
  "balanced depth [] = (depth = 0)"
| "balanced depth (TOpen # ts) = balanced (Suc depth) ts"
| "balanced depth (TClose # ts) = (depth > 0 \<and> balanced (depth - 1) ts)"
| "balanced depth (t # ts) = balanced depth ts"

fun atomsOf :: "token list \<Rightarrow> atom list" where
  \<comment> \<open>what the pattern consumes, one atom per character; a group consumes what is inside it\<close>
  "atomsOf [] = []"
| "atomsOf (TChar c # ts) = Lit c # atomsOf ts"
| "atomsOf (TDot # ts) = AnyChar # atomsOf ts"
| "atomsOf (t # ts) = atomsOf ts"

definition newRegExp :: "string \<Rightarrow> error + atom list" where
  \<comment> \<open>\<^verbatim>\<open>new RegExp(pattern, flags)\<close>; the flags are given where the pattern is used\<close>
  "newRegExp pattern =
     (case tokenize pattern of
        None \<Rightarrow> Inl UnmodelledPattern
      | Some ts \<Rightarrow> if balanced 0 ts then Inr (atomsOf ts) else Inl SyntaxError)"

definition canonicalize :: "char \<Rightarrow> nat" where
  \<comment> \<open>The code unit compared under the \<^verbatim>\<open>i\<close> flag: the upper-case form when that is a single
      code unit. For 0xFF and the micro sign 0xB5 it lies outside Latin-1 (0x178, 0x39C); the
      sharp s 0xDF has a two-letter upper-case form and stays.\<close>
  "canonicalize c =
     (let n = (of_char c :: nat) in
      if (0x61 \<le> n \<and> n \<le> 0x7A) \<or> (0xE0 \<le> n \<and> n \<le> 0xFE \<and> n \<noteq> 0xF7) then n - 0x20
      else if n = 0xFF then 0x178
      else if n = 0xB5 then 0x39C
      else n)"

fun atomMatches :: "bool \<Rightarrow> atom \<Rightarrow> char \<Rightarrow> bool" where
  "atomMatches ignoreCase AnyChar x = (\<not> isLineTerminator x)"
| "atomMatches ignoreCase (Lit c) x =
     (if ignoreCase then canonicalize x = canonicalize c else x = c)"

fun matchAt :: "bool \<Rightarrow> atom list \<Rightarrow> string \<Rightarrow> bool" where
  \<comment> \<open>the pattern matches at the start of the text\<close>
  "matchAt ignoreCase [] s = True"
| "matchAt ignoreCase (a # as) [] = False"
| "matchAt ignoreCase (a # as) (x # xs) = (atomMatches ignoreCase a x \<and> matchAt ignoreCase as xs)"

fun countGlobal :: "atom list \<Rightarrow> string \<Rightarrow> nat" where
  \<comment> \<open>\<^verbatim>\<open>(s.match(re) || []).length\<close> for \<^verbatim>\<open>re\<close> with the flag \<^verbatim>\<open>g\<close>: matches are taken from
      left to right, each search starting where the last match ended (one further on after an
      empty match)\<close>
  "countGlobal as [] = (if as = [] then 1 else 0)"
| "countGlobal as (x # xs) =
     (if matchAt False as (x # xs) then Suc (countGlobal as (drop (length as - 1) xs))
      else countGlobal as xs)"

fun splitCapture :: "atom list \<Rightarrow> string \<Rightarrow> string \<Rightarrow> string list" where
  \<comment> \<open>the pieces from the current piece \<open>acc\<close> on, for a pattern that is not empty: the text
      before a match, then the match (the capture), then the rest\<close>
  "splitCapture as acc [] = [acc]"
| "splitCapture as acc (x # xs) =
     (if matchAt True as (x # xs)
      then acc # take (length as) (x # xs) # splitCapture as [] (drop (length as - 1) xs)
      else splitCapture as (acc @ [x]) xs)"

definition splitRegExp :: "atom list \<Rightarrow> string \<Rightarrow> string list" where
  \<comment> \<open>\<^verbatim>\<open>s.split(re)\<close> for \<^verbatim>\<open>re\<close> with the flags \<^verbatim>\<open>gi\<close> whose pattern is one capturing group
      round the atoms. An empty pattern matches between any two characters, with an empty
      capture, and splits the empty string into no piece at all.\<close>
  "splitRegExp as s =
     (if as = [] then (case s of [] \<Rightarrow> [] | c # cs \<Rightarrow> [c] # concat (map (\<lambda>d. [[], [d]]) cs))
      else splitCapture as [] s)"

definition escapeRegExp :: "string \<Rightarrow> string" where
  \<comment> \<open>\<^verbatim>\<open>.replace(/[.*+?^${}()|[\]\\]/g, '\\$&')\<close>\<close>
  "escapeRegExp s = concat (map (\<lambda>c. if isSyntaxCharacter c then [backslash, c] else [c]) s)"

section \<open>Search: \<^verbatim>\<open>processFoundParagraph\<close> and \<^verbatim>\<open>searchInFiles\<close>\<close>

record file_data =
  fileId :: string
  fileName_f :: string
  content :: string
  size_f :: nat
  type_f :: string

record search_result =
  fileName :: string
  foundParagraphs :: "string list"
  totalParagraphs :: nat
  occurrenceCount :: nat

record debug_data =
  fileName_d :: string
  paragraphIndex_d :: nat
  originalParagraph_d :: string
  searchTerm_d :: string
  containsPipe :: bool
  splitCount :: nat
  sentences :: "string list"
  selectedSentences :: "string list"
  finalParagraph :: string

record debug_info =
  fileName_i :: string
  paragraphIndex :: nat
  originalParagraph :: string
  processedParagraph :: string
  debugDetails :: debug_data

fun selectSentences :: "string \<Rightarrow> string list \<Rightarrow> string list \<times> string list \<Rightarrow> string list \<times> string list" where
  \<comment> \<open>the loop of lines 201-211 over \<^verbatim>\<open>sentences[1..]\<close>; the state is
      \<^verbatim>\<open>(finalParagraphParts, selectedSentences)\<close>\<close>
  "selectSentences processedSearchTerm [] st = st"
| "selectSentences processedSearchTerm (sentence # rest) (parts, selected) =
     (if includes_str (toLowerCase sentence) processedSearchTerm
      then selectSentences processedSearchTerm rest
             (parts @ [sentence], selected @ [''[MATCH] '' @ sentence])
      else selectSentences processedSearchTerm rest
             (parts, selected @ [''[SKIP] '' @ sentence]))"

definition processFoundParagraph :: "string \<Rightarrow> string \<Rightarrow> string \<Rightarrow> nat \<Rightarrow> string \<times> debug_data" where
  "processFoundParagraph paragraph searchTerm fName pIndex =
     (let processedSearchTerm = toLowerCase (trim searchTerm);
          debugData = \<lparr> fileName_d = fName, paragraphIndex_d = pIndex,
                        originalParagraph_d = paragraph, searchTerm_d = processedSearchTerm,
                        containsPipe = includes_str paragraph ''|'',
                        splitCount = length (split_str ''|'' paragraph),
                        sentences = [], selectedSentences = [], finalParagraph = [] \<rparr>
      in if includes_str paragraph ''|'' \<and> length (split_str ''|'' paragraph) \<ge> 3 then
           (let sents = map trim (split_str ''|'' paragraph);
                (parts, selected) =
                   selectSentences processedSearchTerm (tl sents)
                     ([hd sents], [''[BASE] '' @ hd sents]);
                res = join '' '' parts
            in (res, debugData \<lparr> sentences := sents, selectedSentences := selected,
                                 finalParagraph := res \<rparr>))
         else (paragraph, debugData \<lparr> finalParagraph := paragraph \<rparr>))"

record scan_state =
  found :: "string list"
  occurrences :: nat
  fileDebugInfo :: "debug_info list"

fun scanParagraphs :: "string \<Rightarrow> string \<Rightarrow> string \<Rightarrow> nat \<Rightarrow> string list \<Rightarrow> scan_state \<Rightarrow> error + scan_state" where
  \<comment> \<open>the \<^verbatim>\<open>forEach\<close> of lines 247-268, from paragraph number \<open>index\<close> on; an exception of
      the \<^verbatim>\<open>RegExp\<close> constructor leaves the loop and the function\<close>
  "scanParagraphs searchTerm processedTerm fName index [] st = Inr st"
| "scanParagraphs searchTerm processedTerm fName index (paragraph # rest) st =
     (let lowerParagraph = toLowerCase paragraph
      in if includes_str lowerParagraph processedTerm then
           (case newRegExp processedTerm of
              Inl e \<Rightarrow> Inl e
            | Inr re \<Rightarrow>
                (let (processed, debug) = processFoundParagraph paragraph searchTerm fName index
                 in scanParagraphs searchTerm processedTerm fName (Suc index) rest
                      \<lparr> found = found st @ [processed],
                        occurrences = occurrences st + countGlobal re lowerParagraph,
                        fileDebugInfo = fileDebugInfo st @
                          [\<lparr> fileName_i = fName, paragraphIndex = index,
                             originalParagraph = paragraph, processedParagraph = processed,
                             debugDetails = debug \<rparr>] \<rparr>))
         else scanParagraphs searchTerm processedTerm fName (Suc index) rest st)"

fun searchLoop :: "file_data list \<Rightarrow> string \<Rightarrow> string list \<Rightarrow> search_result list \<times> debug_info list
    \<Rightarrow> error + search_result list \<times> debug_info list" where
  \<comment> \<open>the \<^verbatim>\<open>for\<close> loop of lines 238-279 over the selected ids\<close>
  "searchLoop files searchTerm [] acc = Inr acc"
| "searchLoop files searchTerm (selectedId # ids) (results, allDebugInfo) =
     (case find (\<lambda>f. fileId f = selectedId) files of
        None \<Rightarrow> searchLoop files searchTerm ids (results, allDebugInfo)
      | Some file \<Rightarrow>
          (let allParagraphs = paragraphs (splitTextIntoParagraphs (content file))
           in case scanParagraphs searchTerm (toLowerCase (trim searchTerm)) (fileName_f file) 0
                     allParagraphs \<lparr> found = [], occurrences = 0, fileDebugInfo = [] \<rparr> of
                Inl e \<Rightarrow> Inl e
              | Inr st \<Rightarrow>
                  if length (found st) > 0 then
                    searchLoop files searchTerm ids
                      (results @ [\<lparr> fileName = fileName_f file, foundParagraphs = found st,
                                    totalParagraphs = length allParagraphs,
                                    occurrenceCount = occurrences st \<rparr>],
                       allDebugInfo @ fileDebugInfo st)
                  else searchLoop files searchTerm ids (results, allDebugInfo)))"

definition searchInFiles :: "file_data list \<Rightarrow> string list \<Rightarrow> string
    \<Rightarrow> error + search_result list \<times> debug_info list" where
  "searchInFiles files selectedFileIds searchTerm =
     (if trim searchTerm = [] \<or> length selectedFileIds = 0 then Inr ([], [])
      else searchLoop files searchTerm selectedFileIds ([], []))"

section \<open>Inline formatting: \<^verbatim>\<open>splitByMarkdown\<close>\<close>

record segment =
  "text" :: string
  isBold :: bool
  isItalic :: bool
  isCode :: bool
  isStrikethrough :: bool
  isHighlighted :: bool

definition plainSegment :: "string \<Rightarrow> segment" where
  "plainSegment t = \<lparr> text = t, isBold = False, isItalic = False, isCode = False,
                      isStrikethrough = False, isHighlighted = False \<rparr>"

fun lazyUntil :: "string \<Rightarrow> string \<Rightarrow> nat option" where
  \<comment> \<open>\<^verbatim>\<open>.*?\<close> followed by the closing delimiter: the number of characters of the shortest
      run, free of line terminators, after which the delimiter stands\<close>
  "lazyUntil close [] = (if close = [] then Some 0 else None)"
| "lazyUntil close (c # cs) =
     (if startsWith (c # cs) close then Some 0
      else if isLineTerminator c then None
      else map_option Suc (lazyUntil close cs))"

definition delimited :: "string \<Rightarrow> string \<Rightarrow> nat option" where
  \<comment> \<open>one alternative of the pattern, such as \<^verbatim>\<open>\*\*.*?\*\*\<close>, at the start of the text: the
      length of the match\<close>
  "delimited d s =
     (if startsWith s d
      then map_option (\<lambda>k. length d + k + length d) (lazyUntil d (drop (length d) s))
      else None)"

definition markdownMatchHere :: "string \<Rightarrow> nat option" where
  \<comment> \<open>\<^verbatim>\<open>(\*\*.*?\*\*|\*.*?\*|`.*?`|~~.*?~~)\<close> at the start of the text: the first alternative
      that matches decides\<close>
  "markdownMatchHere s =
     (case delimited ''**'' s of Some n \<Rightarrow> Some n
      | None \<Rightarrow> (case delimited ''*'' s of Some n \<Rightarrow> Some n
      | None \<Rightarrow> (case delimited ''`'' s of Some n \<Rightarrow> Some n
      | None \<Rightarrow> delimited ''~~'' s)))"

fun markdownExec :: "string \<Rightarrow> (string \<times> string \<times> string) option" where
  \<comment> \<open>\<^verbatim>\<open>markdownRegex.exec(text)\<close> on the text from \<^verbatim>\<open>lastIndex\<close> on: the text before the
      leftmost match, the match, and the text after it\<close>
  "markdownExec [] = None"
| "markdownExec (c # cs) =
     (case markdownMatchHere (c # cs) of
        Some n \<Rightarrow> Some ([], take n (c # cs), drop n (c # cs))
      | None \<Rightarrow> (case markdownExec cs of
                   None \<Rightarrow> None
                 | Some (before, matched, after) \<Rightarrow> Some (c # before, matched, after)))"

definition slice :: "nat \<Rightarrow> nat \<Rightarrow> string \<Rightarrow> string" where
  \<comment> \<open>\<^verbatim>\<open>s.slice(a, -b)\<close>: empty when the two ends cross\<close>
  "slice a b s = take (length s - b - a) (drop a s)"

definition styledSegment :: "string \<Rightarrow> segment" where
  \<comment> \<open>lines 330-359\<close>
  "styledSegment matchedText =
     (if startsWith matchedText ''**'' \<and> endsWith matchedText ''**''
      then (plainSegment (slice 2 2 matchedText)) \<lparr> isBold := True \<rparr>
      else if startsWith matchedText ''*'' \<and> endsWith matchedText ''*''
      then (plainSegment (slice 1 1 matchedText)) \<lparr> isItalic := True \<rparr>
      else if startsWith matchedText ''`'' \<and> endsWith matchedText ''`''
      then (plainSegment (slice 1 1 matchedText)) \<lparr> isCode := True \<rparr>
      else if startsWith matchedText ''~~'' \<and> endsWith matchedText ''~~''
      then (plainSegment (slice 2 2 matchedText)) \<lparr> isStrikethrough := True \<rparr>
      else plainSegment matchedText)"

function splitByMarkdown :: "string \<Rightarrow> segment list" where
  "splitByMarkdown s =
     (case markdownExec s of
        None \<Rightarrow> (if s \<noteq> [] then [plainSegment s] else [])
      | Some (plainText, matchedText, rest) \<Rightarrow>
          (if plainText \<noteq> [] then [plainSegment plainText] else [])
            @ [styledSegment matchedText] @ splitByMarkdown rest)"
  by pat_completeness auto
termination
proof -
  have sw: "startsWith t d \<Longrightarrow> length d \<le> length t" for t d
    by (induction t d rule: startsWith.induct) auto
  have lu: "lazyUntil d t = Some k \<Longrightarrow> d \<noteq> [] \<Longrightarrow> k + length d \<le> length t" for d t k
  proof (induction t arbitrary: k)
    case Nil
    then show ?case by (simp split: if_splits)
  next
    case (Cons c cs)
    show ?case
    proof (cases "startsWith (c # cs) d")
      case True
      with Cons.prems sw[OF True] show ?thesis by simp
    next
      case False
      with Cons.prems obtain j where "lazyUntil d cs = Some j" "k = Suc j"
        by (auto split: if_splits)
      with Cons.IH[of j] Cons.prems show ?thesis by auto
    qed
  qed
  have dl: "delimited d t = Some n \<Longrightarrow> d \<noteq> [] \<Longrightarrow> 0 < n \<and> n \<le> length t" for d t n
    using lu[of d "drop (length d) t"] by (auto simp: delimited_def split: if_splits)
  have mh: "markdownMatchHere t = Some n \<Longrightarrow> 0 < n \<and> n \<le> length t" for t n
    unfolding markdownMatchHere_def by (auto split: option.splits dest!: dl)
  have me: "markdownExec t = Some (before, matched, after) \<Longrightarrow> length after < length t"
    for t before matched after
  proof (induction t arbitrary: before)
    case Nil
    then show ?case by simp
  next
    case (Cons c cs)
    show ?case
    proof (cases "markdownMatchHere (c # cs)")
      case (Some n)
      with Cons.prems mh[OF Some] show ?thesis by auto
    next
      case None
      with Cons.prems obtain b where "markdownExec cs = Some (b, matched, after)"
        by (auto split: option.splits)
      with Cons.IH[of b] show ?thesis by simp
    qed
  qed
  show ?thesis
    by (relation "measure length") (auto dest!: me)
qed

declare splitByMarkdown.simps [simp del]

section \<open>Highlighting: \<^verbatim>\<open>applyHighlightToSegments\<close>\<close>

definition highlightParts :: "segment \<Rightarrow> string \<Rightarrow> string list \<Rightarrow> segment list" where
  \<comment> \<open>lines 398-407: the empty parts are dropped\<close>
  "highlightParts seg processedTerm parts =
     map (\<lambda>part. seg \<lparr> text := part, isHighlighted := (toLowerCase part = processedTerm) \<rparr>)
       (filter (\<lambda>part. part \<noteq> []) parts)"

fun highlightLoop :: "string \<Rightarrow> segment list \<Rightarrow> segment list \<Rightarrow> error + segment list" where
  \<comment> \<open>the \<^verbatim>\<open>forEach\<close> of lines 391-411; \<open>res\<close> is \<^verbatim>\<open>result\<close>\<close>
  "highlightLoop processedTerm [] res = Inr res"
| "highlightLoop processedTerm (seg # segs) res =
     (if includes_str (toLowerCase (text seg)) processedTerm then
        (case newRegExp (''('' @ escapeRegExp processedTerm @ '')'') of
           Inl e \<Rightarrow> Inl e
         | Inr re \<Rightarrow> highlightLoop processedTerm segs
                      (res @ highlightParts seg processedTerm (splitRegExp re (text seg))))
      else highlightLoop processedTerm segs (res @ [seg]))"

definition applyHighlightToSegments :: "segment list \<Rightarrow> string \<Rightarrow> error + segment list" where
  "applyHighlightToSegments segments searchTerm =
     (if trim searchTerm = [] then Inr segments
      else highlightLoop (toLowerCase (trim searchTerm)) segments [])"

definition getFormattedTextSegments :: "string \<Rightarrow> string \<Rightarrow> error + segment list" where
  "getFormattedTextSegments s searchTerm = applyHighlightToSegments (splitByMarkdown s) searchTerm"

section \<open>Export: \<^verbatim>\<open>exportToDocx\<close>\<close>

text \<open>
  The document library and the file saver are outside the repository. The model is the list
  of paragraphs handed to \<^verbatim>\<open>new Document\<close> and the file name handed to \<^verbatim>\<open>saveAs\<close>; a
  paragraph is recorded with its text, heading and runs (spacing and borders carry no text
  and are left out). The two dates read from the clock are parameters.
\<close>

datatype heading_level = TITLE | HEADING_1

record text_run =
  runText :: string
  bold :: "bool option"
  italics :: "bool option"
  strike :: "bool option"
  highlight :: "string option"
  font :: "string option"

datatype docx_paragraph =
    TextParagraph string "heading_level option"
  | RunsParagraph "text_run list"
  | RuleParagraph

function numberToString :: "nat \<Rightarrow> string" where
  \<comment> \<open>\<^verbatim>\<open>n.toString()\<close> for a non-negative integer: its decimal digits\<close>
  "numberToString n =
     (if n < 10 then [char_of (48 + n)]
      else numberToString (n div 10) @ [char_of (48 + n mod 10)])"
  by pat_completeness auto
termination
  by (relation "measure id") auto

declare numberToString.simps [simp del]

definition padStart :: "nat \<Rightarrow> char \<Rightarrow> string \<Rightarrow> string" where
  \<comment> \<open>\<^verbatim>\<open>s.padStart(n, c)\<close> for a one-character filler\<close>
  "padStart n c s = replicate (n - length s) c @ s"

definition segmentRun :: "segment \<Rightarrow> text_run" where
  \<comment> \<open>lines 489-496\<close>
  "segmentRun seg =
     \<lparr> runText = text seg, bold = Some (isBold seg), italics = Some (isItalic seg),
       strike = Some (isStrikethrough seg),
       highlight = (if isHighlighted seg then Some ''yellow'' else None),
       font = (if isCode seg then Some ''Courier New'' else None) \<rparr>"

definition prefixRun :: "string \<Rightarrow> text_run" where
  \<comment> \<open>lines 482-485\<close>
  "prefixRun numberPrefix =
     \<lparr> runText = numberPrefix, bold = Some True, italics = None, strike = None,
       highlight = None, font = None \<rparr>"

fun exportParagraphs :: "string \<Rightarrow> nat \<Rightarrow> string list \<Rightarrow> error + nat \<times> docx_paragraph list" where
  \<comment> \<open>the inner \<^verbatim>\<open>forEach\<close> of lines 472-505; the state is \<^verbatim>\<open>paragraphCounter\<close>, the result
      the paragraphs pushed to \<^verbatim>\<open>children\<close>\<close>
  "exportParagraphs searchTerm paragraphCounter [] = Inr (paragraphCounter, [])"
| "exportParagraphs searchTerm paragraphCounter (paragraph # rest) =
     (let counter = paragraphCounter + 1;
          numberPrefix = padStart 2 (CHR ''0'') (numberToString counter) @ ''. ''
      in case getFormattedTextSegments paragraph searchTerm of
           Inl e \<Rightarrow> Inl e
         | Inr segments \<Rightarrow>
             (case exportParagraphs searchTerm counter rest of
                Inl e \<Rightarrow> Inl e
              | Inr (final, children) \<Rightarrow>
                  Inr (final, RunsParagraph (prefixRun numberPrefix # map segmentRun segments)
                              # children)))"

fun exportResults :: "string \<Rightarrow> nat \<Rightarrow> search_result list \<Rightarrow> error + nat \<times> docx_paragraph list" where
  \<comment> \<open>the outer \<^verbatim>\<open>forEach\<close> of lines 459-506\<close>
  "exportResults searchTerm paragraphCounter [] = Inr (paragraphCounter, [])"
| "exportResults searchTerm paragraphCounter (r # rest) =
     (case exportParagraphs searchTerm paragraphCounter (foundParagraphs r) of
        Inl e \<Rightarrow> Inl e
      | Inr (counter, entries) \<Rightarrow>
          (case exportResults searchTerm counter rest of
             Inl e \<Rightarrow> Inl e
           | Inr (final, children) \<Rightarrow>
               Inr (final,
                    [TextParagraph (''File: '' @ fileName r) (Some HEADING_1),
                     TextParagraph (''Found '' @ numberToString (length (foundParagraphs r))
                                      @ '' paragraphs with '' @ numberToString (occurrenceCount r)
                                      @ '' occurrences'') None]
                    @ entries @ children)))"

definition isAlphaNumeric :: "char \<Rightarrow> bool" where
  \<comment> \<open>the class \<^verbatim>\<open>[a-zA-Z0-9]\<close>\<close>
  "isAlphaNumeric c \<longleftrightarrow>
     (let n = (of_char c :: nat) in
      (0x61 \<le> n \<and> n \<le> 0x7A) \<or> (0x41 \<le> n \<and> n \<le> 0x5A) \<or> (0x30 \<le> n \<and> n \<le> 0x39))"

definition termSlug :: "string \<Rightarrow> string" where
  \<comment> \<open>\<^verbatim>\<open>searchTerm.replace(/[^a-zA-Z0-9]/g, '_')\<close>, line 532\<close>
  "termSlug searchTerm = map (\<lambda>c. if isAlphaNumeric c then c else CHR ''_'') searchTerm"

definition exportFileName :: "string \<Rightarrow> string \<Rightarrow> string" where
  "exportFileName searchTerm isoDate =
     ''search_results_'' @ termSlug searchTerm @ ''_'' @ take 10 isoDate @ ''.docx''"

definition exportToDocx :: "search_result list \<Rightarrow> string \<Rightarrow> string \<Rightarrow> string
    \<Rightarrow> error + docx_paragraph list \<times> string" where
  \<comment> \<open>the document's paragraphs and the name of the saved file\<close>
  "exportToDocx results searchTerm localeDate isoDate =
     (case exportResults searchTerm 0 results of
        Inl e \<Rightarrow> Inl e
      | Inr (final, children) \<Rightarrow>
          Inr ([TextParagraph (''Search Results for \"'' @ searchTerm @ ''\"'') (Some TITLE),
                TextParagraph (''Generated on: '' @ localeDate) None]
               @ children @ [RuleParagraph],
               exportFileName searchTerm isoDate))"

section \<open>Notions used to state the properties\<close>

definition isDelimiterChar :: "char \<Rightarrow> bool" where
  \<comment> \<open>the characters the Markdown delimiters are made of\<close>
  "isDelimiterChar c \<longleftrightarrow> c = CHR ''*'' \<or> c = CHR ''`'' \<or> c = CHR ''~''"

definition highlightOne :: "string \<Rightarrow> segment \<Rightarrow> segment list" where
  \<comment> \<open>what one pass of the loop of \<^verbatim>\<open>applyHighlightToSegments\<close> appends for a segment, once
      the pattern is known to be the escaped term\<close>
  "highlightOne processedTerm seg =
     (if includes_str (toLowerCase (text seg)) processedTerm
      then highlightParts seg processedTerm (splitRegExp (map Lit processedTerm) (text seg))
      else [seg])"

definition specClosingAt :: "string \<Rightarrow> string \<Rightarrow> nat option" where
  \<comment> \<open>where a pair closes: the first place in the text at which the delimiter stands with no
      line terminator before it\<close>
  "specClosingAt d s =
     find (\<lambda>k. take (length d) (drop k s) = d
                \<and> list_all (\<lambda>c. \<not> isLineTerminator c) (take k s))
       [0 ..< Suc (length s)]"

fun specStrippedText :: "string \<Rightarrow> string option" where
  \<comment> \<open>The paragraph as the specification of the inline format parser describes its spans:
      read from left to right, a double asterisk, a single asterisk, a backquote or a double
      tilde that is closed by the same delimiter further on in the line forms a pair (the
      double asterisk before the single one); the two delimiters of a pair are removed and what
      stands between them is kept as it is; a single asterisk, a backquote or a tilde that
      nothing closes is kept as literal text. Where a double asterisk is not closed the
      function gives no text: that case is left open here.\<close>
  "specStrippedText [] = Some []"
| "specStrippedText (c # cs) =
     (if take 2 (c # cs) = ''**'' then
        (case specClosingAt ''**'' (drop 1 cs) of
           None \<Rightarrow> None
         | Some k \<Rightarrow> map_option ((@) (take k (drop 1 cs)))
                       (specStrippedText (drop (1 + k + 2) cs)))
      else if c = CHR ''*'' \<or> c = CHR ''`'' then
        (case specClosingAt [c] cs of
           None \<Rightarrow> map_option ((#) c) (specStrippedText cs)
         | Some k \<Rightarrow> map_option ((@) (take k cs)) (specStrippedText (drop (k + 1) cs)))
      else if take 2 (c # cs) = ''~~'' then
        (case specClosingAt ''~~'' (drop 1 cs) of
           None \<Rightarrow> map_option ((#) c) (specStrippedText cs)
         | Some k \<Rightarrow> map_option ((@) (take k (drop 1 cs)))
                       (specStrippedText (drop (1 + k + 2) cs)))
      else map_option ((#) c) (specStrippedText cs))"


definition formattedRuns :: "string \<Rightarrow> string \<Rightarrow> text_run list" where
  \<comment> \<open>the runs made of the highlighted spans of a paragraph\<close>
  "formattedRuns paragraph searchTerm =
     (case getFormattedTextSegments paragraph searchTerm of
        Inr segments \<Rightarrow> map segmentRun segments
      | Inl e \<Rightarrow> [])"

fun isEntry :: "docx_paragraph \<Rightarrow> bool" where
  \<comment> \<open>the paragraphs of the document that hold a numbered result\<close>
  "isEntry (RunsParagraph runs) = True"
| "isEntry p = False"

fun entryPrefix :: "docx_paragraph \<Rightarrow> string" where
  \<comment> \<open>the text of the leading run of an entry\<close>
  "entryPrefix (RunsParagraph (r # runs)) = runText r"
| "entryPrefix p = []"

definition blankLineBlocks :: "string \<Rightarrow> nat \<Rightarrow> string" where
  \<comment> \<open>\<open>k\<close> times: a line break, a line that holds one space, a line break, the line \<open>w\<close>\<close>
  "blankLineBlocks w k = concat (replicate k (LF # CHR '' '' # LF # w))"

definition shortLinesDocument :: string where
  \<comment> \<open>a line of 1351 characters, an empty line, and 30 lines \<^verbatim>\<open>ab\<close> with a line of one space
      between any two of them: 1500 characters, 60 line breaks, one double line break\<close>
  "shortLinesDocument =
     CHR ''x'' # replicate 1350 (CHR ''x'') @ [LF, LF] @ ''ab'' @ blankLineBlocks ''ab'' 29"

definition paragraphLinesDocument :: string where
  \<comment> \<open>the same with a line of 1321 characters and 30 lines \<^verbatim>\<open>abc\<close>\<close>
  "paragraphLinesDocument =
     CHR ''x'' # replicate 1320 (CHR ''x'') @ [LF, LF] @ ''abc'' @ blankLineBlocks ''abc'' 29"

definition twoParagraphsDocument :: string where
  \<comment> \<open>two lines \<^verbatim>\<open>abc\<close> and 500 lines \<^verbatim>\<open>ab\<close>, with a line of one space between any two\<close>
  "twoParagraphsDocument = ''abc'' @ blankLineBlocks ''abc'' 1 @ blankLineBlocks ''ab'' 500"

definition threeParagraphsDocument :: string where
  \<comment> \<open>three lines \<^verbatim>\<open>abc\<close> and 500 lines \<^verbatim>\<open>ab\<close>, with a line of one space between any two\<close>
  "threeParagraphsDocument = ''abc'' @ blankLineBlocks ''abc'' 2 @ blankLineBlocks ''ab'' 500"

section \<open>The export file name (claim C9)\<close>

lemma termSlug_pointwise:
  "list_all2 (\<lambda>c d. d = (if isAlphaNumeric c then c else CHR ''_'')) t (termSlug t)"
  by (simp add: termSlug_def list_all2_map2 list_all2_same)

lemma underscore_not_alphanumeric: "\<not> isAlphaNumeric (CHR ''_'')"
  by (simp add: isAlphaNumeric_def)

lemma termSlug_keeps_alphanumeric:
  "filter isAlphaNumeric (termSlug t) = filter isAlphaNumeric t"
  by (induction t) (simp_all add: termSlug_def underscore_not_alphanumeric)

text \<open>
  Claim C9, as the code has it. The slug of the search term in the export file name has
  the length of the term: a character of \<^verbatim>\<open>[A-Za-z0-9]\<close> stays, in its place, and every other
  character is replaced by an underscore, not removed. The name handed to \<^verbatim>\<open>saveAs\<close> is
  \<^verbatim>\<open>search_results_\<close>, the slug, an underscore, the first ten characters of the ISO date
  and \<^verbatim>\<open>.docx\<close>.
\<close>

theorem C9_slug_replaces_by_underscore:
  "length (termSlug t) = length t
   \<and> list_all2 (\<lambda>c d. d = (if isAlphaNumeric c then c else CHR ''_'')) t (termSlug t)
   \<and> filter isAlphaNumeric (termSlug t) = filter isAlphaNumeric t
   \<and> exportFileName t isoDate
       = ''search_results_'' @ termSlug t @ ''_'' @ take 10 isoDate @ ''.docx''"
  using termSlug_pointwise[of t] termSlug_keeps_alphanumeric[of t]
  by (simp add: exportFileName_def termSlug_def)

text \<open>
  Claim C9 as stated fails: for the term \<^verbatim>\<open>a b\<close> the slug is \<^verbatim>\<open>a_b\<close>, while removing the
  characters outside \<^verbatim>\<open>[A-Za-z0-9]\<close> would give \<^verbatim>\<open>ab\<close>.
\<close>

theorem C9_slug_strip_counterexample:
  "termSlug ''a b'' = ''a_b'' \<and> termSlug ''a b'' \<noteq> filter isAlphaNumeric ''a b''"
  by (simp add: termSlug_def isAlphaNumeric_def)

section \<open>Restructuring a matched paragraph (claim C5)\<close>

lemma selectSentences_filter:
  "selectSentences t xs (parts, selected) =
     (parts @ filter (\<lambda>s. includes_str (toLowerCase s) t) xs,
      selected @ map (\<lambda>s. (if includes_str (toLowerCase s) t then ''[MATCH] '' else ''[SKIP] '') @ s) xs)"
  by (induction xs arbitrary: parts selected) simp_all

text \<open>
  Claim C5. When the paragraph contains \<^verbatim>\<open>|\<close> and splits on it into at least three
  pieces, \<^verbatim>\<open>processFoundParagraph\<close> emits piece 0 followed by exactly those later pieces
  whose lower-case form contains the trimmed, lower-cased search term, in their order and
  joined with one space; each piece is emitted trimmed, as the source trims the pieces before
  it selects them. Otherwise the paragraph is returned as it is.
\<close>

theorem C5_restructuring:
  "(includes_str paragraph ''|'' \<and> length (split_str ''|'' paragraph) \<ge> 3
      \<longrightarrow> fst (processFoundParagraph paragraph searchTerm fName pIndex)
            = join '' ''
                (trim (hd (split_str ''|'' paragraph))
                 # filter (\<lambda>s. includes_str (toLowerCase s) (toLowerCase (trim searchTerm)))
                     (map trim (tl (split_str ''|'' paragraph)))))
   \<and> (\<not> (includes_str paragraph ''|'' \<and> length (split_str ''|'' paragraph) \<ge> 3)
      \<longrightarrow> fst (processFoundParagraph paragraph searchTerm fName pIndex) = paragraph)"
proof (intro conjI impI)
  assume a: "includes_str paragraph ''|'' \<and> length (split_str ''|'' paragraph) \<ge> 3"
  then obtain p ps where ps: "split_str ''|'' paragraph = p # ps"
    by (cases "split_str ''|'' paragraph") auto
  from a show "fst (processFoundParagraph paragraph searchTerm fName pIndex)
            = join '' ''
                (trim (hd (split_str ''|'' paragraph))
                 # filter (\<lambda>s. includes_str (toLowerCase s) (toLowerCase (trim searchTerm)))
                     (map trim (tl (split_str ''|'' paragraph))))"
    by (simp add: processFoundParagraph_def ps Let_def selectSentences_filter split: prod.splits)
next
  assume "\<not> (includes_str paragraph ''|'' \<and> length (split_str ''|'' paragraph) \<ge> 3)"
  then show "fst (processFoundParagraph paragraph searchTerm fName pIndex) = paragraph"
    by (auto simp add: processFoundParagraph_def Let_def)
qed

text \<open>
  The theorem at the paragraph of the specification: four pieces, of which the third does
  not contain \<^verbatim>\<open>abc\<close> and is dropped.
\<close>

theorem C5_restructuring_witness:
  "includes_str ''Intro text | mentions abc here | unrelated clause | another abc mention'' ''|''
   \<and> length (split_str ''|''
               ''Intro text | mentions abc here | unrelated clause | another abc mention'') \<ge> 3
   \<and> fst (processFoundParagraph
            ''Intro text | mentions abc here | unrelated clause | another abc mention''
            ''abc'' ''notes.md'' 0)
       = ''Intro text mentions abc here another abc mention''"
proof -
  let ?p = "''Intro text | mentions abc here | unrelated clause | another abc mention''"
  have a: "includes_str ?p ''|''" by code_simp
  have b: "length (split_str ''|'' ?p) \<ge> 3" by code_simp
  have c: "join '' ''
             (trim (hd (split_str ''|'' ?p))
              # filter (\<lambda>s. includes_str (toLowerCase s) (toLowerCase (trim ''abc'')))
                  (map trim (tl (split_str ''|'' ?p))))
           = ''Intro text mentions abc here another abc mention''"
    by code_simp
  from a b c C5_restructuring[of ?p "''abc''" "''notes.md''" 0] show ?thesis by simp
qed

section \<open>The pattern built from the escaped term\<close>

text \<open>
  The pattern of \<^verbatim>\<open>applyHighlightToSegments\<close> is accepted for every term and matches the
  term literally: the \<^verbatim>\<open>RegExp\<close> constructor cannot throw there.
\<close>

lemma tokenize_escapeRegExp:
  "tokenize (escapeRegExp t @ rest) = map_option (\<lambda>ts. map TChar t @ ts) (tokenize rest)"
proof (induction t)
  case Nil
  show ?case by (simp add: escapeRegExp_def option.map_ident)
next
  case (Cons c t)
  have e: "escapeRegExp (c # t) = (if isSyntaxCharacter c then [backslash, c] else [c]) @ escapeRegExp t"
    by (simp add: escapeRegExp_def)
  show ?case
  proof (cases "isSyntaxCharacter c")
    case True
    with Cons.IH show ?thesis
      by (simp add: e option.map_comp comp_def)
  next
    case False
    then have "c \<noteq> backslash" "c \<noteq> CHR ''.''" "c \<noteq> CHR ''(''" "c \<noteq> CHR '')''"
      by (auto simp: isSyntaxCharacter_def)
    with False Cons.IH show ?thesis
      by (simp add: e option.map_comp comp_def)
  qed
qed

lemma balanced_TChar: "balanced d (map TChar t @ ts) = balanced d ts"
  by (induction t) simp_all

lemma atomsOf_TChar: "atomsOf (map TChar t @ ts) = map Lit t @ atomsOf ts"
  by (induction t) simp_all

lemma newRegExp_escaped: "newRegExp (''('' @ escapeRegExp t @ '')'') = Inr (map Lit t)"
proof -
  have "tokenize (''('' @ escapeRegExp t @ '')'') = Some (TOpen # map TChar t @ [TClose])"
    using tokenize_escapeRegExp[of t "'')''"]
    by (simp add: isSyntaxCharacter_def)
  then show ?thesis
    by (simp add: newRegExp_def balanced_TChar atomsOf_TChar)
qed

section \<open>Highlighting keeps the text of the segments\<close>

lemma concat_splitCapture: "as \<noteq> [] \<Longrightarrow> concat (splitCapture as acc s) = acc @ s"
proof (induction as acc s rule: splitCapture.induct)
  case (1 as acc)
  show ?case by simp
next
  case (2 as acc x xs)
  from 2(3) obtain a as' where as: "as = a # as'" by (cases as) auto
  show ?case
  proof (cases "matchAt True as (x # xs)")
    case True
    with 2(1)[OF True 2(3)] show ?thesis by (simp add: as)
  next
    case False
    with 2(2)[OF False 2(3)] show ?thesis by simp
  qed
qed

lemma concat_splitRegExp: "concat (splitRegExp as s) = s"
proof (cases "as = []")
  case True
  have "concat (concat (map (\<lambda>d. [[], [d]]) cs)) = cs" for cs :: string
    by (induction cs) simp_all
  with True show ?thesis by (simp add: splitRegExp_def split: list.splits)
next
  case False
  then show ?thesis by (simp add: splitRegExp_def concat_splitCapture)
qed

lemma concat_highlightParts:
  "concat (map text (highlightParts seg t parts)) = concat parts"
  by (induction parts) (simp_all add: highlightParts_def)

lemma highlightLoop_eq:
  "highlightLoop t segs res = Inr (res @ concat (map (highlightOne t) segs))"
proof -
  have re: "newRegExp (CHR ''('' # escapeRegExp t @ '')'') = Inr (map Lit t)"
    using newRegExp_escaped[of t] by simp
  show ?thesis
    by (induction segs arbitrary: res) (simp_all add: re highlightOne_def)
qed

lemma concat_highlightOne: "concat (map text (highlightOne t seg)) = text seg"
  by (simp add: highlightOne_def concat_highlightParts concat_splitRegExp)

lemma applyHighlight_eq:
  "applyHighlightToSegments segs term =
     Inr (if trim term = [] then segs else concat (map (highlightOne (toLowerCase (trim term))) segs))"
  by (simp add: applyHighlightToSegments_def highlightLoop_eq)

lemma applyHighlight_text:
  "applyHighlightToSegments segs term = Inr out \<Longrightarrow>
     concat (map text out) = concat (map text segs)"
proof -
  have "concat (map text (concat (map (highlightOne t) segs))) = concat (map text segs)" for t
    by (induction segs) (simp_all add: concat_highlightOne)
  then show "applyHighlightToSegments segs term = Inr out \<Longrightarrow>
     concat (map text out) = concat (map text segs)"
    by (auto simp: applyHighlight_eq split: if_splits)
qed

section \<open>Facts about \<^verbatim>\<open>splitByMarkdown\<close>\<close>

lemma startsWith_prefix: "startsWith s p = prefix p s"
  by (induction s p rule: startsWith.induct) auto


lemma lazyUntil_bound: "lazyUntil d s = Some k \<Longrightarrow> d \<noteq> [] \<Longrightarrow> k + length d \<le> length s"
proof (induction s arbitrary: k)
  case Nil
  then show ?case by (simp split: if_splits)
next
  case (Cons c cs)
  show ?case
  proof (cases "startsWith (c # cs) d")
    case True
    with Cons.prems prefix_length_le[of d "c # cs"] show ?thesis
      by (simp add: startsWith_prefix)
  next
    case False
    with Cons.prems obtain j where "lazyUntil d cs = Some j" "k = Suc j"
      by (auto split: if_splits)
    with Cons.IH[of j] Cons.prems show ?thesis by auto
  qed
qed

lemma delimited_bound:
  "delimited d s = Some n \<Longrightarrow> d \<noteq> [] \<Longrightarrow> 2 * length d \<le> n \<and> n \<le> length s"
  using lazyUntil_bound[of d "drop (length d) s"]
  by (auto simp: delimited_def split: if_splits)

lemma markdownMatchHere_bound:
  assumes "markdownMatchHere s = Some n"
  shows "0 < n \<and> n \<le> length s"
  using assms unfolding markdownMatchHere_def
  by (auto split: option.splits dest!: delimited_bound)

lemma markdownExec_parts:
  "markdownExec s = Some (before, matched, after) \<Longrightarrow>
     s = before @ matched @ after \<and> matched \<noteq> []"
proof (induction s arbitrary: before)
  case Nil
  then show ?case by simp
next
  case (Cons c cs)
  show ?case
  proof (cases "markdownMatchHere (c # cs)")
    case (Some n)
    with Cons.prems markdownMatchHere_bound[OF Some] show ?thesis by auto
  next
    case None
    with Cons.prems obtain b where "markdownExec cs = Some (b, matched, after)" "before = c # b"
      by (auto split: option.splits)
    with Cons.IH[of b] show ?thesis by simp
  qed
qed



section \<open>The text of the highlighted spans (claim C1)\<close>

lemma getFormatted_text:
  "\<exists>segs. getFormattedTextSegments p searchTerm = Inr segs
     \<and> concat (map text segs) = concat (map text (splitByMarkdown p))"
proof -
  obtain segs where segs: "applyHighlightToSegments (splitByMarkdown p) searchTerm = Inr segs"
    using applyHighlight_eq[of "splitByMarkdown p" searchTerm] by blast
  from applyHighlight_text[OF segs] segs show ?thesis
    unfolding getFormattedTextSegments_def by blast
qed

lemma splitByMarkdown_None: "markdownExec s = None \<Longrightarrow> splitByMarkdown s = (if s \<noteq> [] then [plainSegment s] else [])"
  by (simp add: splitByMarkdown.simps[of s])

lemma splitByMarkdown_Some: "markdownExec s = Some (pre, m, rest) \<Longrightarrow>
     splitByMarkdown s = (if pre \<noteq> [] then [plainSegment pre] else []) @ [styledSegment m] @ splitByMarkdown rest"
  by (simp add: splitByMarkdown.simps[of s])






















lemma specStrippedText_plain:
  "list_all (\<lambda>c. \<not> isDelimiterChar c) p \<Longrightarrow> specStrippedText p = Some p"
  by (induction p) (auto simp: isDelimiterChar_def)

lemma no_double_asterisk_drop:
  "\<not> sublist ''**'' p \<Longrightarrow> \<not> sublist ''**'' (drop n p)"
  by (meson sublist_drop sublist_order.order_trans)

lemma specStrippedText_defined:
  "\<not> sublist ''**'' p \<Longrightarrow> \<exists>q. specStrippedText p = Some q"
proof (induction "length p" arbitrary: p rule: less_induct)
  case less
  show ?case
  proof (cases p)
    case Nil
    then show ?thesis by simp
  next
    case (Cons c cs)
    have nb: "take 2 (c # cs) \<noteq> ''**''"
    proof
      assume "take 2 (c # cs) = ''**''"
      then have "prefix ''**'' p" unfolding Cons by (metis take_is_prefix)
      with less.prems show False by (meson prefix_imp_sublist)
    qed
    have tl: "\<exists>q. specStrippedText (drop n cs) = Some q" for n
    proof (rule less.hyps)
      show "length (drop n cs) < length p" unfolding Cons by simp
      have "drop n cs = drop (Suc n) p" unfolding Cons by simp
      with no_double_asterisk_drop[OF less.prems] show "\<not> sublist ''**'' (drop n cs)" by simp
    qed
    from tl[of 0] obtain q0 where q0: "specStrippedText cs = Some q0" by auto
    show ?thesis
    proof (cases "c = CHR ''*'' \<or> c = CHR ''`''")
      case True
      show ?thesis
      proof (cases "specClosingAt [c] cs")
        case None
        with nb True q0 show ?thesis unfolding Cons by (simp only: specStrippedText.simps) simp
      next
        case (Some k)
        from tl[of "k + 1"] obtain q1 where "specStrippedText (drop (k + 1) cs) = Some q1" by auto
        with nb True Some show ?thesis unfolding Cons by (simp only: specStrippedText.simps) simp
      qed
    next
      case False
      show ?thesis
      proof (cases "specClosingAt ''~~'' (drop 1 cs)")
        case None
        with nb False q0 show ?thesis unfolding Cons by (simp only: specStrippedText.simps) simp
      next
        case (Some k)
        from tl[of "1 + k + 2"] obtain q1 where "specStrippedText (drop (1 + k + 2) cs) = Some q1" by auto
        with nb False Some q0 show ?thesis unfolding Cons by (simp only: specStrippedText.simps) simp
      qed
    qed
  qed
qed




section \<open>Highlighting is decided inside each span (claim C10)\<close>

text \<open>
  Claim C10. For a term whose trim is not blank and spans that are not yet highlighted,
  highlighting a sequence of spans is highlighting each part of it on its own: the result
  for \<open>xs @ ys\<close> is the result for \<open>xs\<close> followed by the result for \<open>ys\<close>, and each of
  the two covers exactly the text of its own spans. So every output span lies inside one input
  span, and one that is marked highlighted has a text equal to the trimmed term up to case:
  it is an occurrence inside that span. An occurrence that exists only across a boundary
  highlights nothing: when no span contains the term on its own, the spans are returned as
  they are.
\<close>

theorem C10_highlight_within_spans:
  assumes "trim searchTerm \<noteq> []" and "\<forall>seg \<in> set (xs @ ys). \<not> isHighlighted seg"
  shows "\<exists>a b. applyHighlightToSegments xs searchTerm = Inr a
           \<and> applyHighlightToSegments ys searchTerm = Inr b
           \<and> applyHighlightToSegments (xs @ ys) searchTerm = Inr (a @ b)
           \<and> concat (map text a) = concat (map text xs)
           \<and> concat (map text b) = concat (map text ys)
           \<and> (\<forall>out \<in> set (a @ b).
                 isHighlighted out \<longrightarrow> toLowerCase (text out) = toLowerCase (trim searchTerm))
           \<and> ((\<forall>seg \<in> set (xs @ ys).
                  \<not> includes_str (toLowerCase (text seg)) (toLowerCase (trim searchTerm)))
                \<longrightarrow> a @ b = xs @ ys)"
proof -
  let ?t = "toLowerCase (trim searchTerm)"
  let ?a = "concat (map (highlightOne ?t) xs)" and ?b = "concat (map (highlightOne ?t) ys)"
  have one: "isHighlighted out \<longrightarrow> toLowerCase (text out) = ?t"
    if "out \<in> set (highlightOne ?t seg)" "\<not> isHighlighted seg" for out seg
    using that by (auto simp: highlightOne_def highlightParts_def split: if_splits)
  have hl: "\<forall>out \<in> set (?a @ ?b). isHighlighted out \<longrightarrow> toLowerCase (text out) = ?t"
    using assms(2) one by auto
  have same: "concat (map (highlightOne ?t) zs) = zs"
    if "\<forall>seg \<in> set zs. \<not> includes_str (toLowerCase (text seg)) ?t" for zs
    using that by (induction zs) (simp_all add: highlightOne_def)
  have bd: "(\<forall>seg \<in> set (xs @ ys). \<not> includes_str (toLowerCase (text seg)) ?t)
              \<longrightarrow> ?a @ ?b = xs @ ys"
    using same[of xs] same[of ys] by auto
  have "applyHighlightToSegments xs searchTerm = Inr ?a"
    "applyHighlightToSegments ys searchTerm = Inr ?b"
    "applyHighlightToSegments (xs @ ys) searchTerm = Inr (?a @ ?b)"
    using assms(1) by (simp_all add: applyHighlight_eq)
  moreover from this have "concat (map text ?a) = concat (map text xs)"
    "concat (map text ?b) = concat (map text ys)"
    by (simp_all only: applyHighlight_text)
  ultimately show ?thesis using hl bd by blast
qed

text \<open>
  The theorem at the spans \<^verbatim>\<open>xab\<close> and \<^verbatim>\<open>c abc\<close> with the term \<^verbatim>\<open>abc\<close>: the occurrence made
  of the end of the first span and the start of the second is not marked, the one inside the
  second span is.
\<close>

theorem C10_highlight_within_spans_witness:
  "trim ''abc'' \<noteq> []
   \<and> list_all (\<lambda>seg. \<not> isHighlighted seg) ([plainSegment ''xab''] @ [plainSegment ''c abc''])
   \<and> applyHighlightToSegments ([plainSegment ''xab''] @ [plainSegment ''c abc'']) ''abc''
       = Inr ([plainSegment ''xab'']
              @ [plainSegment ''c '', (plainSegment ''abc'') \<lparr> isHighlighted := True \<rparr>])"
proof -
  have t: "trim ''abc'' \<noteq> []" by code_simp
  have h: "\<forall>seg \<in> set ([plainSegment ''xab''] @ [plainSegment ''c abc'']). \<not> isHighlighted seg"
    by (simp add: plainSegment_def)
  have a: "applyHighlightToSegments [plainSegment ''xab''] ''abc'' = Inr [plainSegment ''xab'']"
    by code_simp
  have b: "applyHighlightToSegments [plainSegment ''c abc''] ''abc''
             = Inr [plainSegment ''c '', (plainSegment ''abc'') \<lparr> isHighlighted := True \<rparr>]"
    by code_simp
  from C10_highlight_within_spans[OF t h] a b
  have "applyHighlightToSegments ([plainSegment ''xab''] @ [plainSegment ''c abc'']) ''abc''
       = Inr ([plainSegment ''xab'']
              @ [plainSegment ''c '', (plainSegment ''abc'') \<lparr> isHighlighted := True \<rparr>])"
    by auto
  moreover from h have "list_all (\<lambda>seg. \<not> isHighlighted seg)
                          ([plainSegment ''xab''] @ [plainSegment ''c abc''])"
    unfolding list_all_iff .
  ultimately show ?thesis using t by blast
qed

section \<open>Delimiters that nothing closes (claim C8)\<close>

text \<open>
  Claim C8 asks that a delimiter which nothing closes stays in the spans as literal text. The
  code does not do so for the string \<^verbatim>\<open>**abc\<close>: no later double asterisk closes the first one,
  so the first alternative of the pattern fails, and the second alternative matches the two
  asterisks as a pair of single asterisks with nothing in between. The match begins and ends
  with a double asterisk, so it is classified as bold and its text is cut to the empty string.
  The segments are an empty bold span and the plain span \<^verbatim>\<open>abc\<close>: the two asterisks are lost.
\<close>

theorem C8_unclosed_double_asterisk_dropped:
  "splitByMarkdown ''**abc'' = [(plainSegment []) \<lparr> isBold := True \<rparr>, plainSegment ''abc'']
   \<and> concat (map text (splitByMarkdown ''**abc'')) = ''abc''"
proof -
  have e: "markdownExec ''**abc'' = Some ([], ''**'', ''abc'')" by code_simp
  have r: "markdownExec ''abc'' = None" by code_simp
  have s: "styledSegment ''**'' = (plainSegment []) \<lparr> isBold := True \<rparr>" by code_simp
  have "splitByMarkdown ''**abc'' = [(plainSegment []) \<lparr> isBold := True \<rparr>, plainSegment ''abc'']"
    by (simp add: splitByMarkdown_Some[OF e] splitByMarkdown_None[OF r] s)
  then show ?thesis by (simp add: plainSegment_def)
qed

section \<open>Numbering of the exported paragraphs (claim C7)\<close>

lemma getFormatted_runs:
  "\<exists>segs. getFormattedTextSegments p t = Inr segs \<and> formattedRuns p t = map segmentRun segs"
proof -
  from getFormatted_text[of p t] obtain segs where "getFormattedTextSegments p t = Inr segs"
    by blast
  then show ?thesis by (simp add: formattedRuns_def)
qed

lemma exportParagraphs_eq:
  "exportParagraphs t c ps =
     Inr (c + length ps,
          map (\<lambda>(n, p). RunsParagraph
                 (prefixRun (padStart 2 (CHR ''0'') (numberToString n) @ ''. '') # formattedRuns p t))
            (enumerate (Suc c) ps))"
proof (induction ps arbitrary: c)
  case Nil
  show ?case by simp
next
  case (Cons p ps)
  from getFormatted_runs[of p t] obtain segs where
    "getFormattedTextSegments p t = Inr segs" "formattedRuns p t = map segmentRun segs" by blast
  then show ?case by (simp add: Cons.IH Let_def)
qed

lemma exportResults_eq:
  "\<exists>children. exportResults t c rs = Inr (c + length (concat (map foundParagraphs rs)), children)
     \<and> filter isEntry children =
          map (\<lambda>(n, p). RunsParagraph
                 (prefixRun (padStart 2 (CHR ''0'') (numberToString n) @ ''. '') # formattedRuns p t))
            (enumerate (Suc c) (concat (map foundParagraphs rs)))"
proof (induction rs arbitrary: c)
  case Nil
  show ?case by simp
next
  case (Cons r rs)
  let ?e = "\<lambda>(n, p). RunsParagraph
                 (prefixRun (padStart 2 (CHR ''0'') (numberToString n) @ ''. '') # formattedRuns p t)"
  from Cons.IH[of "c + length (foundParagraphs r)"] obtain children where
    ch: "exportResults t (c + length (foundParagraphs r)) rs
           = Inr (c + length (foundParagraphs r) + length (concat (map foundParagraphs rs)), children)"
    and fl: "filter isEntry children
           = map ?e (enumerate (Suc (c + length (foundParagraphs r))) (concat (map foundParagraphs rs)))"
    by blast
  have en: "filter isEntry (map ?e xs) = map ?e xs" for xs
    by (induction xs) (auto split: prod.splits)
  show ?case
    using ch fl
    by (simp add: exportParagraphs_eq en enumerate_append_eq add.assoc)
qed

lemma numberToString_nonempty: "numberToString n \<noteq> []"
  by (subst numberToString.simps) simp

lemma padStart_number:
  "(n < 10 \<longrightarrow> padStart 2 (CHR ''0'') (numberToString n) = CHR ''0'' # numberToString n)
   \<and> (10 \<le> n \<longrightarrow> padStart 2 (CHR ''0'') (numberToString n) = numberToString n)"
proof (intro conjI impI)
  assume "n < 10"
  then show "padStart 2 (CHR ''0'') (numberToString n) = CHR ''0'' # numberToString n"
    by (subst (1 2) numberToString.simps) (simp add: padStart_def)
next
  assume "10 \<le> n"
  then have "numberToString n = numberToString (n div 10) @ [char_of (48 + n mod 10)]"
    by (subst numberToString.simps) simp
  moreover have "length (numberToString (n div 10)) \<ge> 1"
    using numberToString_nonempty[of "n div 10"] by (cases "numberToString (n div 10)") auto
  ultimately have "length (numberToString n) \<ge> 2" by simp
  then show "padStart 2 (CHR ''0'') (numberToString n) = numberToString n"
    by (simp add: padStart_def)
qed

text \<open>
  Claim C7. \<^verbatim>\<open>exportToDocx\<close> returns for every result list and term, and the numbered
  entries of its document, in their order, are the found paragraphs of all results in result
  order and then paragraph order, the \<open>n\<close>-th of them (counting from 1 through the whole
  list, never per file) led by a bold run with the text of \<open>n\<close> padded with \<^verbatim>\<open>0\<close> to two
  characters and followed by a full stop and a space, and then by the runs of its highlighted
  spans. A number below 10 gets one leading zero; a number from 10 on is its decimal form,
  so 100 gives \<^verbatim>\<open>100. \<close>.
\<close>

theorem C7_global_numbering:
  "\<exists>children fName.
      exportToDocx results searchTerm localeDate isoDate = Inr (children, fName)
    \<and> filter isEntry children =
        map (\<lambda>(n, paragraph). RunsParagraph
               (\<lparr> runText = padStart 2 (CHR ''0'') (numberToString n) @ ''. '', bold = Some True,
                   italics = None, strike = None, highlight = None, font = None \<rparr>
                # formattedRuns paragraph searchTerm))
          (enumerate 1 (concat (map foundParagraphs results)))
    \<and> (\<forall>paragraph. \<exists>segments.
           getFormattedTextSegments paragraph searchTerm = Inr segments
         \<and> formattedRuns paragraph searchTerm = map segmentRun segments)
    \<and> (\<forall>n. (n < 10 \<longrightarrow> padStart 2 (CHR ''0'') (numberToString n) = CHR ''0'' # numberToString n)
           \<and> (10 \<le> n \<longrightarrow> padStart 2 (CHR ''0'') (numberToString n) = numberToString n))
    \<and> padStart 2 (CHR ''0'') (numberToString 100) @ ''. '' = ''100. ''"
proof -
  from exportResults_eq[of searchTerm 0 results] obtain ch where
    ch: "exportResults searchTerm 0 results
           = Inr (0 + length (concat (map foundParagraphs results)), ch)"
    and fl: "filter isEntry ch =
          map (\<lambda>(n, p). RunsParagraph
                 (prefixRun (padStart 2 (CHR ''0'') (numberToString n) @ ''. '') # formattedRuns p searchTerm))
            (enumerate (Suc 0) (concat (map foundParagraphs results)))"
    by blast
  have h: "padStart 2 (CHR ''0'') (numberToString 100) @ ''. '' = ''100. ''"
    by code_simp
  have e: "exportToDocx results searchTerm localeDate isoDate
             = Inr ([TextParagraph (''Search Results for \"'' @ searchTerm @ ''\"'') (Some TITLE),
                     TextParagraph (''Generated on: '' @ localeDate) None]
                    @ ch @ [RuleParagraph],
                    exportFileName searchTerm isoDate)"
    using ch by (simp add: exportToDocx_def)
  have f: "filter isEntry ([TextParagraph (''Search Results for \"'' @ searchTerm @ ''\"'') (Some TITLE),
                     TextParagraph (''Generated on: '' @ localeDate) None]
                    @ ch @ [RuleParagraph]) = filter isEntry ch"
    by simp
  show ?thesis
    apply (intro exI conjI)
        apply (rule e)
       apply (simp only: f fl prefixRun_def One_nat_def)
      apply (rule allI, rule getFormatted_runs)
     apply (rule allI, rule padStart_number)
    apply (rule h)
    done
qed

text \<open>
  The theorem at two results, two paragraphs of file A and one of file B: the prefixes are
  \<^verbatim>\<open>01. \<close>, \<^verbatim>\<open>02. \<close> and \<^verbatim>\<open>03. \<close>.
\<close>

theorem C7_global_numbering_witness:
  "(1::nat) < 10 \<and> (10::nat) \<le> 100
   \<and> (\<exists>children fName.
        exportToDocx
          [\<lparr> fileName = ''A'', foundParagraphs = [''x abc'', ''abc y''], totalParagraphs = 5,
              occurrenceCount = 2 \<rparr>,
           \<lparr> fileName = ''B'', foundParagraphs = [''**abc**''], totalParagraphs = 4,
              occurrenceCount = 1 \<rparr>]
          ''abc'' ''1/2/2026'' ''2026-01-02T10:00:00.000Z'' = Inr (children, fName)
        \<and> map entryPrefix (filter isEntry children) = [''01. '', ''02. '', ''03. ''])"
proof -
  let ?rs = "[\<lparr> fileName = ''A'', foundParagraphs = [''x abc'', ''abc y''], totalParagraphs = 5,
              occurrenceCount = 2 \<rparr>,
           \<lparr> fileName = ''B'', foundParagraphs = [''**abc**''], totalParagraphs = 4,
              occurrenceCount = 1 \<rparr>]"
  from C7_global_numbering[of ?rs "''abc''" "''1/2/2026''" "''2026-01-02T10:00:00.000Z''"]
  obtain children fName where
    e: "exportToDocx ?rs ''abc'' ''1/2/2026'' ''2026-01-02T10:00:00.000Z'' = Inr (children, fName)"
    and f: "filter isEntry children =
        map (\<lambda>(n, paragraph). RunsParagraph
               (\<lparr> runText = padStart 2 (CHR ''0'') (numberToString n) @ ''. '', bold = Some True,
                   italics = None, strike = None, highlight = None, font = None \<rparr>
                # formattedRuns paragraph ''abc''))
          (enumerate 1 (concat (map foundParagraphs ?rs)))"
    by blast
  have n: "padStart 2 (CHR ''0'') (numberToString (Suc 0)) = ''01''"
    "padStart 2 (CHR ''0'') (numberToString (Suc (Suc 0))) = ''02''"
    "padStart 2 (CHR ''0'') (numberToString (Suc (Suc (Suc 0)))) = ''03''"
    by code_simp+
  have "map entryPrefix (filter isEntry children) = [''01. '', ''02. '', ''03. '']"
    unfolding f by (simp add: n)
  with e show ?thesis by auto
qed

section \<open>The unescaped pattern of \<^verbatim>\<open>searchInFiles\<close> (claims C2 and C6)\<close>

text \<open>
  \<^verbatim>\<open>searchInFiles\<close> counts the occurrences with \<^verbatim>\<open>new RegExp(processedTerm, 'g')\<close>, the
  term as the user typed it, while \<^verbatim>\<open>applyHighlightToSegments\<close> escapes the term first. For
  a term without syntax characters the two agree: the pattern is the literal term, and each
  matched paragraph adds the number of non-overlapping occurrences of the lower-cased,
  trimmed term in its own lower-cased text, whatever the restructuring shows.
\<close>

lemma newRegExp_plain:
  assumes "\<forall>c \<in> set t. \<not> isSyntaxCharacter c"
  shows "newRegExp t = Inr (map Lit t)"
proof -
  from assms have e: "escapeRegExp t = t"
    by (induction t) (simp_all add: escapeRegExp_def)
  from tokenize_escapeRegExp[of t "[]"] have "tokenize t = Some (map TChar t)"
    by (simp add: e)
  then show ?thesis
    using balanced_TChar[of 0 t "[]"] atomsOf_TChar[of t "[]"] by (simp add: newRegExp_def)
qed

lemma matchAt_literal: "matchAt False (map Lit t) s = startsWith s t"
  by (induction s t rule: startsWith.induct) simp_all

lemma countGlobal_literal: "t \<noteq> [] \<Longrightarrow> countGlobal (map Lit t) s = countMatches t s"
  by (induction t s rule: countMatches.induct) (simp_all add: matchAt_literal)

lemma scanParagraphs_literal:
  assumes "\<forall>c \<in> set t. \<not> isSyntaxCharacter c" "t \<noteq> []"
  shows "\<exists>st'. scanParagraphs searchTerm t fName i ps st = Inr st'
           \<and> occurrences st' = occurrences st
                + sum_list (map (\<lambda>p. countMatches t (toLowerCase p))
                    (filter (\<lambda>p. includes_str (toLowerCase p) t) ps))"
proof (induction ps arbitrary: i st)
  case Nil
  show ?case by simp
next
  case (Cons p ps)
  show ?case
  proof (cases "includes_str (toLowerCase p) t")
    case True
    obtain processed debug where pd: "processFoundParagraph p searchTerm fName i = (processed, debug)"
      by (cases "processFoundParagraph p searchTerm fName i") auto
    let ?st = "\<lparr> found = found st @ [processed],
                 occurrences = occurrences st + countGlobal (map Lit t) (toLowerCase p),
                 fileDebugInfo = fileDebugInfo st @
                   [\<lparr> fileName_i = fName, paragraphIndex = i,
                      originalParagraph = p, processedParagraph = processed,
                      debugDetails = debug \<rparr>] \<rparr>"
    from Cons.IH[of "Suc i" ?st] obtain st' where
      "scanParagraphs searchTerm t fName (Suc i) ps ?st = Inr st'"
      "occurrences st' = occurrences ?st
                + sum_list (map (\<lambda>p. countMatches t (toLowerCase p))
                    (filter (\<lambda>p. includes_str (toLowerCase p) t) ps))" by blast
    with True pd show ?thesis
      by (simp add: newRegExp_plain[OF assms(1)] countGlobal_literal[OF assms(2)] Let_def)
  next
    case False
    with Cons.IH[of "Suc i" st] show ?thesis by (simp add: Let_def)
  qed
qed

lemma occurrence_count_abcabc:
  "map_sum id (map occurrenceCount \<circ> fst)
     (searchInFiles
        [\<lparr> fileId = ''1'', fileName_f = ''a.md'', content = ''abcabc'', size_f = 6,
           type_f = ''text/plain'' \<rparr>]
        [''1''] ''abc'') = Inr [2]"
  by code_simp

text \<open>
  Claim C2 fails on the code. For the file content \<^verbatim>\<open>f(x)\<close> and the term \<^verbatim>\<open>(\<close> the paragraph
  contains the term, the pattern \<^verbatim>\<open>(\<close> is an unterminated group, and the constructor throws:
  \<^verbatim>\<open>searchInFiles\<close> does not return a result pair.
\<close>

theorem C2_searchInFiles_throws_on_unescaped_term:
  "searchInFiles
     [\<lparr> fileId = ''1'', fileName_f = ''a.md'', content = ''f(x)'', size_f = 4,
        type_f = ''text/plain'' \<rparr>]
     [''1''] ''('' = Inl SyntaxError"
  by code_simp

text \<open>
  Claim C6 fails on the code for the same reason. For the paragraph \<^verbatim>\<open>a.c abc\<close> and the term
  \<^verbatim>\<open>a.c\<close> the dot of the unescaped pattern matches any character, so the count is 2, while the
  term occurs once.
\<close>

theorem C6_count_with_unescaped_dot:
  "map_sum id (map occurrenceCount \<circ> fst)
     (searchInFiles
        [\<lparr> fileId = ''1'', fileName_f = ''a.md'', content = ''a.c abc'', size_f = 7,
           type_f = ''text/plain'' \<rparr>]
        [''1''] ''a.c'') = Inr [2]
   \<and> countMatches (toLowerCase (trim ''a.c'')) (toLowerCase ''a.c abc'') = 1"
  by code_simp

section \<open>Splitting a text made of repeated blocks\<close>

text \<open>
  The documents at which the segmentation is evaluated below are long (1500 characters and
  more), so their candidate segmentations are derived from their block structure instead of
  being computed character by character.
\<close>

lemma split_from_skip:
  "sep \<noteq> [] \<Longrightarrow> hd sep \<notin> set a \<Longrightarrow> split_from sep acc (a @ rest) = split_from sep (acc @ a) rest"
proof (induction a arbitrary: acc)
  case Nil
  show ?case by simp
next
  case (Cons c a)
  from Cons.prems obtain s ss where s: "sep = s # ss" "c \<noteq> s" by (cases sep) auto
  with Cons.IH[of "acc @ [c]"] Cons.prems show ?case by simp
qed

lemma split_blank_skip:
  "LF \<notin> set a \<Longrightarrow> split_blank acc (a @ rest) = split_blank (acc @ a) rest"
  by (induction a arbitrary: acc) auto

lemma split_lines_block:
  assumes "LF \<notin> set w"
  shows "split_from [LF] acc (LF # CHR '' '' # LF # w @ rest)
           = acc # '' '' # split_from [LF] w rest"
  using split_from_skip[of "[LF]" w "[]" rest] assms by simp

lemma split_double_block:
  assumes "w \<noteq> []" "LF \<notin> set w"
  shows "split_from [LF, LF] acc (LF # CHR '' '' # LF # w @ rest)
           = split_from [LF, LF] (acc @ LF # CHR '' '' # LF # w) rest"
proof -
  from assms obtain c cs where w: "w = c # cs" "c \<noteq> LF" by (cases w) auto
  have "split_from [LF, LF] (acc @ [LF, CHR '' '', LF]) (w @ rest)
          = split_from [LF, LF] ((acc @ [LF, CHR '' '', LF]) @ w) rest"
    using assms(2) by (intro split_from_skip) simp_all
  then show ?thesis by (simp add: w)
qed

lemma split_blank_block:
  assumes "w \<noteq> []" "LF \<notin> set w" "\<not> isWhiteSpace (hd w)"
  shows "split_blank acc (LF # CHR '' '' # LF # w @ rest) = acc # split_blank w rest"
proof -
  from assms obtain c cs where w: "w = c # cs" "\<not> isWhiteSpace c" by (cases w) auto
  have ws: "isWhiteSpace (CHR '' '')" "isWhiteSpace LF" by (simp_all add: isWhiteSpace_def)
  have "blankGap (CHR '' '' # LF # w @ rest) = Some 2"
    by (simp add: blankGap_def w ws)
  moreover have "split_blank [] (w @ rest) = split_blank ([] @ w) rest"
    using assms(2) by (rule split_blank_skip)
  ultimately show ?thesis by simp
qed

lemma repeat_split:
  fixes f :: "string \<Rightarrow> string \<Rightarrow> string list"
  assumes "\<And>acc rest. f acc (b @ rest) = acc # mids @ f w rest"
  shows "f acc (concat (replicate (Suc k) b) @ t)
           = acc # mids @ concat (replicate k (w # mids)) @ f w t"
proof (induction k arbitrary: acc)
  case 0
  show ?case using assms[of acc t] by simp
next
  case (Suc k)
  have "f acc (concat (replicate (Suc (Suc k)) b) @ t)
          = f acc (b @ (concat (replicate (Suc k) b) @ t))" by simp
  also have "\<dots> = acc # mids @ f w (concat (replicate (Suc k) b) @ t)" by (rule assms)
  also have "\<dots> = acc # mids @ (w # mids @ concat (replicate k (w # mids)) @ f w t)"
    by (simp only: Suc.IH)
  finally show ?case by simp
qed

lemma repeat_keep:
  fixes f :: "string \<Rightarrow> string \<Rightarrow> string list"
  assumes "\<And>acc rest. f acc (b @ rest) = f (acc @ b) rest"
  shows "f acc (concat (replicate k b) @ t) = f (acc @ concat (replicate k b)) t"
proof (induction k arbitrary: acc)
  case 0
  show ?case by simp
next
  case (Suc k)
  have "f acc (concat (replicate (Suc k) b) @ t) = f acc (b @ (concat (replicate k b) @ t))"
    by simp
  also have "\<dots> = f (acc @ b) (concat (replicate k b) @ t)" by (rule assms)
  also have "\<dots> = f ((acc @ b) @ concat (replicate k b)) t" by (rule Suc.IH)
  finally show ?case by simp
qed

lemma lines_of_blocks:
  assumes "LF \<notin> set w"
  shows "split_from [LF] acc (blankLineBlocks w (Suc k) @ t)
           = acc # '' '' # concat (replicate k [w, '' '']) @ split_from [LF] w t"
  unfolding blankLineBlocks_def
  using repeat_split[of "split_from [LF]" "LF # CHR '' '' # LF # w" "['' '']" w acc k t]
    split_lines_block[OF assms] by simp

lemma doubles_of_blocks:
  assumes "w \<noteq> []" "LF \<notin> set w"
  shows "split_from [LF, LF] acc (blankLineBlocks w k @ t)
           = split_from [LF, LF] (acc @ blankLineBlocks w k) t"
  unfolding blankLineBlocks_def
  using repeat_keep[of "split_from [LF, LF]" "LF # CHR '' '' # LF # w" acc k t]
    split_double_block[OF assms] by simp

lemma paragraphs_of_blocks:
  assumes "w \<noteq> []" "LF \<notin> set w" "\<not> isWhiteSpace (hd w)"
  shows "split_blank acc (blankLineBlocks w (Suc k) @ t)
           = acc # replicate k w @ split_blank w t"
  unfolding blankLineBlocks_def
  using repeat_split[of split_blank "LF # CHR '' '' # LF # w" "[]" w acc k t]
    split_blank_block[OF assms] by simp

lemma length_blankLineBlocks: "length (blankLineBlocks w k) = k * (3 + length w)"
  by (induction k) (simp_all add: blankLineBlocks_def)

lemma CR_blankLineBlocks: "CR \<notin> set w \<Longrightarrow> CR \<notin> set (blankLineBlocks w k)"
  by (induction k) (simp_all add: blankLineBlocks_def)

lemma normalize_without_CR: "CR \<notin> set s \<Longrightarrow> normalizeLineEndings s = s"
proof -
  have "CR \<notin> set s \<Longrightarrow> replaceCRLF s = s"
    by (induction s rule: replaceCRLF.induct) auto
  moreover have "CR \<notin> set s \<Longrightarrow> replaceCR s = s"
    by (induction s) (auto simp: replaceCR_def)
  ultimately show "CR \<notin> set s \<Longrightarrow> normalizeLineEndings s = s"
    by (simp add: normalizeLineEndings_def)
qed

lemma split_from_count: "sep \<noteq> [] \<Longrightarrow> length (split_from sep acc s) = Suc (countMatches sep s)"
  by (induction sep acc s rule: split_from.induct) simp_all

lemma countMatches_single: "countMatches [c] s = length (filter (\<lambda>x. x = c) s)"
  by (induction s) simp_all

lemma trim_same: "s \<noteq> [] \<Longrightarrow> \<not> isWhiteSpace (hd s) \<Longrightarrow> \<not> isWhiteSpace (last s) \<Longrightarrow> trim s = s"
proof -
  assume a: "s \<noteq> []" "\<not> isWhiteSpace (hd s)" "\<not> isWhiteSpace (last s)"
  then have "dropWhile isWhiteSpace s = s" by (cases s) auto
  moreover from a have "dropWhile isWhiteSpace (rev s) = rev s"
    by (cases "rev s") (auto simp: last_rev hd_rev)
  ultimately show ?thesis by (simp add: trim_def)
qed

lemma trim_small:
  "trim ''abc'' = ''abc''" "trim ''ab'' = ''ab''" "trim '' '' = []" "trim [] = []"
  by (simp_all add: trim_def isWhiteSpace_def)

lemma trim_not_blank: "s \<noteq> [] \<Longrightarrow> \<not> isWhiteSpace (hd s) \<Longrightarrow> trim s \<noteq> []"
proof -
  assume a: "s \<noteq> []" "\<not> isWhiteSpace (hd s)"
  then have "dropWhile isWhiteSpace s = s" by (cases s) auto
  moreover from a have "hd s \<in> set (rev s)" by simp
  with a(2) have "dropWhile isWhiteSpace (rev s) \<noteq> []"
    unfolding dropWhile_eq_Nil_conv by blast
  ultimately show ?thesis by (simp add: trim_def)
qed

subsection \<open>Documents of lines \<^verbatim>\<open>abc\<close> and \<^verbatim>\<open>ab\<close> separated by lines of one space\<close>

lemma spaced_lines:
  "split_str [LF] (''abc'' @ blankLineBlocks ''abc'' (Suc j) @ blankLineBlocks ''ab'' (Suc k))
     = ''abc'' # '' '' # concat (replicate j [''abc'', '' ''])
         @ ''abc'' # '' '' # concat (replicate k [''ab'', '' '']) @ [''ab'']"
proof -
  have "split_from [LF] [] (''abc'' @ blankLineBlocks ''abc'' (Suc j) @ blankLineBlocks ''ab'' (Suc k))
          = split_from [LF] ''abc'' (blankLineBlocks ''abc'' (Suc j) @ blankLineBlocks ''ab'' (Suc k))"
    by simp
  also have "\<dots> = ''abc'' # '' '' # concat (replicate j [''abc'', '' ''])
                    @ split_from [LF] ''abc'' (blankLineBlocks ''ab'' (Suc k) @ [])"
    using lines_of_blocks[of "''abc''" "''abc''" j "blankLineBlocks ''ab'' (Suc k)"] by simp
  also have "split_from [LF] ''abc'' (blankLineBlocks ''ab'' (Suc k) @ [])
          = ''abc'' # '' '' # concat (replicate k [''ab'', '' '']) @ [''ab'']"
    using lines_of_blocks[of "''ab''" "''abc''" k "[]"] by simp
  finally show ?thesis by (simp add: split_str_def)
qed

lemma spaced_doubles:
  "split_str [LF, LF] (''abc'' @ blankLineBlocks ''abc'' j @ blankLineBlocks ''ab'' k)
     = [''abc'' @ blankLineBlocks ''abc'' j @ blankLineBlocks ''ab'' k]"
proof -
  have "split_from [LF, LF] [] (''abc'' @ blankLineBlocks ''abc'' j @ blankLineBlocks ''ab'' k)
          = split_from [LF, LF] ''abc'' (blankLineBlocks ''abc'' j @ blankLineBlocks ''ab'' k)"
    by simp
  also have "\<dots> = split_from [LF, LF] (''abc'' @ blankLineBlocks ''abc'' j) (blankLineBlocks ''ab'' k @ [])"
    using doubles_of_blocks[of "''abc''" "''abc''" j "blankLineBlocks ''ab'' k"] by simp
  also have "\<dots> = [(''abc'' @ blankLineBlocks ''abc'' j) @ blankLineBlocks ''ab'' k]"
    using doubles_of_blocks[of "''ab''" "''abc'' @ blankLineBlocks ''abc'' j" k "[]"] by simp
  finally show ?thesis by (simp add: split_str_def)
qed

lemma spaced_blocks:
  "split_blank [] (''abc'' @ blankLineBlocks ''abc'' (Suc j) @ blankLineBlocks ''ab'' (Suc k))
     = ''abc'' # replicate j ''abc'' @ ''abc'' # replicate k ''ab'' @ [''ab'']"
proof -
  have ws: "\<not> isWhiteSpace (CHR ''a'')" by (simp add: isWhiteSpace_def)
  have "split_blank [] (''abc'' @ blankLineBlocks ''abc'' (Suc j) @ blankLineBlocks ''ab'' (Suc k))
          = split_blank ''abc'' (blankLineBlocks ''abc'' (Suc j) @ blankLineBlocks ''ab'' (Suc k))"
    by simp
  also have "\<dots> = ''abc'' # replicate j ''abc''
                    @ split_blank ''abc'' (blankLineBlocks ''ab'' (Suc k) @ [])"
    using paragraphs_of_blocks[of "''abc''" "''abc''" j "blankLineBlocks ''ab'' (Suc k)"] ws by simp
  also have "split_blank ''abc'' (blankLineBlocks ''ab'' (Suc k) @ [])
          = ''abc'' # replicate k ''ab'' @ [''ab'']"
    using paragraphs_of_blocks[of "''ab''" "''abc''" k "[]"] ws by simp
  finally show ?thesis by simp
qed

lemma spaced_counts:
  fixes j k :: nat
  defines "doc \<equiv> ''abc'' @ blankLineBlocks ''abc'' (Suc j) @ blankLineBlocks ''ab'' (Suc k)"
  shows "length (result (singleNewlineMethod doc)) = j + 2"
    and "length (result (doubleNewlineMethod doc)) = 1"
    and "length (result (meaningfulLinesMethod doc)) = 0"
    and "length (result (paragraphBlocksMethod doc)) = j + k + 3"
    and "normalizeLineEndings doc = doc"
    and "length doc = 6 * j + 5 * k + 14"
proof -
  show "length (result (singleNewlineMethod doc)) = j + 2"
    unfolding doc_def singleNewlineMethod_def spaced_lines
    by (simp add: trim_small filter_concat)
  show "length (result (meaningfulLinesMethod doc)) = 0"
    unfolding doc_def meaningfulLinesMethod_def spaced_lines
    by (simp add: trim_small filter_concat isMeaningfulLine_def)
  have "trim doc \<noteq> []"
    by (rule trim_not_blank) (simp_all add: doc_def isWhiteSpace_def)
  then show "length (result (doubleNewlineMethod doc)) = 1"
    unfolding doc_def doubleNewlineMethod_def spaced_doubles
    by simp
  show "length (result (paragraphBlocksMethod doc)) = j + k + 3"
    unfolding doc_def paragraphBlocksMethod_def spaced_blocks
    by (simp add: trim_small)
  have "CR \<notin> set doc"
    unfolding doc_def using CR_blankLineBlocks[of "''abc''"] CR_blankLineBlocks[of "''ab''"]
    by simp
  then show "normalizeLineEndings doc = doc" by (rule normalize_without_CR)
  show "length doc = 6 * j + 5 * k + 14"
    by (simp add: doc_def length_blankLineBlocks)
qed

subsection \<open>Documents that start with one long line and an empty line\<close>

lemma long_lines:
  assumes "LF \<notin> set w"
  shows "split_str [LF] (CHR ''x'' # replicate n (CHR ''x'') @ [LF, LF] @ w @ blankLineBlocks w (Suc k))
     = (CHR ''x'' # replicate n (CHR ''x'')) # [] # w # '' '' # concat (replicate k [w, '' '']) @ [w]"
proof -
  let ?X = "CHR ''x'' # replicate n (CHR ''x'')"
  have "split_from [LF] [] (?X @ LF # LF # w @ blankLineBlocks w (Suc k))
          = split_from [LF] ([] @ ?X) (LF # LF # w @ blankLineBlocks w (Suc k))"
    by (rule split_from_skip) simp_all
  also have "\<dots> = ?X # [] # split_from [LF] [] (w @ blankLineBlocks w (Suc k) @ [])" by simp
  also have "split_from [LF] [] (w @ blankLineBlocks w (Suc k) @ [])
               = split_from [LF] ([] @ w) (blankLineBlocks w (Suc k) @ [])"
    using assms by (intro split_from_skip) simp_all
  also have "\<dots> = w # '' '' # concat (replicate k [w, '' '']) @ [w]"
    using lines_of_blocks[OF assms, of w k "[]"] split_from_skip[of "[LF]" w "[]" "[]"] assms
    by simp
  finally show ?thesis by (simp add: split_str_def)
qed

lemma long_doubles:
  assumes "w \<noteq> []" "LF \<notin> set w"
  shows "split_str [LF, LF] (CHR ''x'' # replicate n (CHR ''x'') @ [LF, LF] @ w @ blankLineBlocks w k)
     = [CHR ''x'' # replicate n (CHR ''x''), w @ blankLineBlocks w k]"
proof -
  let ?X = "CHR ''x'' # replicate n (CHR ''x'')"
  have "split_from [LF, LF] [] (?X @ LF # LF # w @ blankLineBlocks w k)
          = split_from [LF, LF] ([] @ ?X) (LF # LF # w @ blankLineBlocks w k)"
    by (rule split_from_skip) simp_all
  also have "\<dots> = ?X # split_from [LF, LF] [] (w @ blankLineBlocks w k @ [])" by simp
  also have "split_from [LF, LF] [] (w @ blankLineBlocks w k @ [])
               = split_from [LF, LF] ([] @ w) (blankLineBlocks w k @ [])"
    using assms by (intro split_from_skip) simp_all
  also have "\<dots> = [w @ blankLineBlocks w k]"
    using doubles_of_blocks[OF assms, of w k "[]"] by simp
  finally show ?thesis by (simp add: split_str_def)
qed

lemma long_blocks:
  assumes "w \<noteq> []" "LF \<notin> set w" "\<not> isWhiteSpace (hd w)"
  shows "split_blank [] (CHR ''x'' # replicate n (CHR ''x'') @ [LF, LF] @ w @ blankLineBlocks w (Suc k))
     = (CHR ''x'' # replicate n (CHR ''x'')) # w # replicate k w @ [w]"
proof -
  let ?X = "CHR ''x'' # replicate n (CHR ''x'')"
  from assms obtain c cs where w: "w = c # cs" "\<not> isWhiteSpace c" by (cases w) auto
  have lf: "isWhiteSpace LF" by (simp add: isWhiteSpace_def)
  have g: "blankGap (LF # w @ blankLineBlocks w (Suc k)) = Some 1"
    by (simp add: blankGap_def w lf)
  have "split_blank [] (?X @ LF # LF # w @ blankLineBlocks w (Suc k))
          = split_blank ([] @ ?X) (LF # LF # w @ blankLineBlocks w (Suc k))"
    by (rule split_blank_skip) simp
  also have "\<dots> = ?X # split_blank [] (w @ blankLineBlocks w (Suc k) @ [])"
    using g by simp
  also have "split_blank [] (w @ blankLineBlocks w (Suc k) @ [])
               = split_blank ([] @ w) (blankLineBlocks w (Suc k) @ [])"
    using assms by (intro split_blank_skip) simp_all
  also have "\<dots> = w # replicate k w @ [w]"
    using paragraphs_of_blocks[OF assms, of w k "[]"] split_blank_skip[of w "[]" "[]"] assms
    by simp
  finally show ?thesis by simp
qed

lemma long_line_facts:
  fixes n :: nat
  defines "X \<equiv> CHR ''x'' # replicate n (CHR ''x'')"
  assumes "10 \<le> n"
  shows "trim X = X" and "isMeaningfulLine X"
proof -
  have x: "\<not> isWhiteSpace (CHR ''x'')" by (simp add: isWhiteSpace_def)
  show t: "trim X = X"
    by (rule trim_same) (simp_all add: X_def x)
  have "\<not> allWhiteSpace X" by (simp add: allWhiteSpace_def X_def x)
  moreover have "\<not> isHeadingMarker X" by (simp add: isHeadingMarker_def X_def)
  moreover have "\<not> isBulletMarker X" by (simp add: isBulletMarker_def X_def)
  moreover have "\<not> isFenceMarker X" by (simp add: isFenceMarker_def X_def)
  moreover have "\<not> isSeparatorRule X" by (simp add: isSeparatorRule_def X_def)
  moreover have "length X > 10" using assms(2) by (simp add: X_def)
  ultimately show "isMeaningfulLine X" by (simp add: isMeaningfulLine_def t)
qed

lemma meaningful_small:
  "\<not> isMeaningfulLine ''abc''" "\<not> isMeaningfulLine ''ab''" "\<not> isMeaningfulLine '' ''"
  "\<not> isMeaningfulLine []"
  by (simp_all add: isMeaningfulLine_def trim_small)

lemma long_counts_ab:
  fixes n k :: nat
  defines "doc \<equiv> CHR ''x'' # replicate n (CHR ''x'') @ [LF, LF] @ ''ab'' @ blankLineBlocks ''ab'' (Suc k)"
  assumes "10 \<le> n"
  shows "length (result (singleNewlineMethod doc)) = 1"
    and "length (result (doubleNewlineMethod doc)) = 2"
    and "length (result (meaningfulLinesMethod doc)) = 1"
    and "length (result (paragraphBlocksMethod doc)) = k + 3"
    and "normalizeLineEndings doc = doc"
    and "length doc = n + 5 * k + 10"
    and "countMatches [LF, LF] doc = 1"
    and "countMatches [LF] doc = 2 * k + 4"
proof -
  let ?X = "CHR ''x'' # replicate n (CHR ''x'')"
  note X = long_line_facts[OF assms(2)]
  have w: "''ab'' \<noteq> []" "LF \<notin> set ''ab''" "\<not> isWhiteSpace (hd ''ab'')"
    by (simp_all add: isWhiteSpace_def)
  have ln: "split_str [LF] doc
              = ?X # [] # ''ab'' # '' '' # concat (replicate k [''ab'', '' '']) @ [''ab'']"
    unfolding doc_def by (rule long_lines[OF w(2)])
  have db: "split_str [LF, LF] doc = [?X, ''ab'' @ blankLineBlocks ''ab'' (Suc k)]"
    unfolding doc_def by (rule long_doubles[OF w(1,2)])
  have bl: "split_blank [] doc = ?X # ''ab'' # replicate k ''ab'' @ [''ab'']"
    unfolding doc_def by (rule long_blocks[OF w])
  have tX: "trim ?X \<noteq> []" using X(1) by simp
  have tT: "trim (''ab'' @ blankLineBlocks ''ab'' (Suc k)) \<noteq> []"
    by (rule trim_not_blank) (simp_all add: isWhiteSpace_def)
  show "length (result (singleNewlineMethod doc)) = 1"
    using assms(2) unfolding singleNewlineMethod_def ln
    by (simp add: trim_small filter_concat X(1) del: replicate.simps)
  show "length (result (meaningfulLinesMethod doc)) = 1"
    unfolding meaningfulLinesMethod_def ln
    by (simp add: meaningful_small filter_concat X(2) del: replicate.simps)
  show "length (result (doubleNewlineMethod doc)) = 2"
    unfolding doubleNewlineMethod_def db using tX tT by simp
  show "length (result (paragraphBlocksMethod doc)) = k + 3"
    unfolding paragraphBlocksMethod_def bl using tX by (simp add: trim_small)
  have "CR \<notin> set doc"
    unfolding doc_def using CR_blankLineBlocks[of "''ab''"] by simp
  then show "normalizeLineEndings doc = doc" by (rule normalize_without_CR)
  show "length doc = n + 5 * k + 10"
    by (simp add: doc_def length_blankLineBlocks)
  have "Suc (countMatches [LF, LF] doc) = length (split_str [LF, LF] doc)"
    by (simp add: split_str_def split_from_count)
  then show "countMatches [LF, LF] doc = 1" unfolding db by simp
  have "Suc (countMatches [LF] doc) = length (split_str [LF] doc)"
    by (simp add: split_str_def split_from_count)
  then show "countMatches [LF] doc = 2 * k + 4" unfolding ln by (simp add: length_concat sum_list_replicate)
qed

lemma long_counts_abc:
  fixes n k :: nat
  defines "doc \<equiv> CHR ''x'' # replicate n (CHR ''x'') @ [LF, LF] @ ''abc'' @ blankLineBlocks ''abc'' (Suc k)"
  assumes "10 \<le> n"
  shows "length (result (singleNewlineMethod doc)) = k + 3"
    and "length (result (meaningfulLinesMethod doc)) = 1"
    and "normalizeLineEndings doc = doc"
    and "length doc = n + 6 * k + 12"
    and "countMatches [LF, LF] doc = 1"
    and "countMatches [LF] doc = 2 * k + 4"
proof -
  let ?X = "CHR ''x'' # replicate n (CHR ''x'')"
  note X = long_line_facts[OF assms(2)]
  have w: "''abc'' \<noteq> []" "LF \<notin> set ''abc''" "\<not> isWhiteSpace (hd ''abc'')"
    by (simp_all add: isWhiteSpace_def)
  have ln: "split_str [LF] doc
              = ?X # [] # ''abc'' # '' '' # concat (replicate k [''abc'', '' '']) @ [''abc'']"
    unfolding doc_def by (rule long_lines[OF w(2)])
  have db: "split_str [LF, LF] doc = [?X, ''abc'' @ blankLineBlocks ''abc'' (Suc k)]"
    unfolding doc_def by (rule long_doubles[OF w(1,2)])
  show "length (result (singleNewlineMethod doc)) = k + 3"
    using assms(2) unfolding singleNewlineMethod_def ln
    by (simp add: trim_small filter_concat X(1) del: replicate.simps)
  show "length (result (meaningfulLinesMethod doc)) = 1"
    unfolding meaningfulLinesMethod_def ln
    by (simp add: meaningful_small filter_concat X(2) del: replicate.simps)
  have "CR \<notin> set doc"
    unfolding doc_def using CR_blankLineBlocks[of "''abc''"] by simp
  then show "normalizeLineEndings doc = doc" by (rule normalize_without_CR)
  show "length doc = n + 6 * k + 12"
    by (simp add: doc_def length_blankLineBlocks)
  have "Suc (countMatches [LF, LF] doc) = length (split_str [LF, LF] doc)"
    by (simp add: split_str_def split_from_count)
  then show "countMatches [LF, LF] doc = 1" unfolding db by simp
  have "Suc (countMatches [LF] doc) = length (split_str [LF] doc)"
    by (simp add: split_str_def split_from_count)
  then show "countMatches [LF] doc = 2 * k + 4" unfolding ln by (simp add: length_concat sum_list_replicate)
qed

section \<open>The choice of the segmentation strategy (claim C3)\<close>

lemma splitInfo_counts:
  "doubleNewlineCount (splitInfo (splitTextIntoParagraphs input))
     = countMatches [LF, LF] (normalizeLineEndings input)"
  "singleNewlineCount (splitInfo (splitTextIntoParagraphs input))
     = countMatches [LF] (normalizeLineEndings input)"
  "normalizedLength (splitInfo (splitTextIntoParagraphs input)) = length (normalizeLineEndings input)"
  "chosenMethod (splitInfo (splitTextIntoParagraphs input))
     = name (chooseMethod (normalizeLineEndings input))"
  "paragraphs (splitTextIntoParagraphs input) = result (chooseMethod (normalizeLineEndings input))"
  by (simp_all add: splitTextIntoParagraphs_def Let_def)

lemma candidate_bounds:
  "length (result (singleNewlineMethod n)) \<le> Suc (countMatches [LF] n)"
  "length (result (meaningfulLinesMethod n)) \<le> Suc (countMatches [LF] n)"
  "length (result (doubleNewlineMethod n)) \<le> Suc (countMatches [LF, LF] n)"
proof -
  have l: "length (split_str [LF] n) = Suc (countMatches [LF] n)"
    by (simp add: split_str_def split_from_count)
  have d: "length (split_str [LF, LF] n) = Suc (countMatches [LF, LF] n)"
    by (simp add: split_str_def split_from_count)
  show "length (result (singleNewlineMethod n)) \<le> Suc (countMatches [LF] n)"
    unfolding l[symmetric] singleNewlineMethod_def by simp
  show "length (result (meaningfulLinesMethod n)) \<le> Suc (countMatches [LF] n)"
    unfolding l[symmetric] meaningfulLinesMethod_def by simp
  show "length (result (doubleNewlineMethod n)) \<le> Suc (countMatches [LF, LF] n)"
    unfolding d[symmetric] doubleNewlineMethod_def by simp
qed

lemma method_splitters:
  "splitter (singleNewlineMethod n) = SplitString [LF]"
  "splitter (meaningfulLinesMethod n) = SplitString [LF]"
  by (simp_all add: singleNewlineMethod_def meaningfulLinesMethod_def)

text \<open>
  Claim C3, as the code has it. With \<open>a\<close>, \<open>b\<close>, \<open>c\<close>, \<open>d\<close> the counts of the candidates
  (single line break, double line break, meaningful lines, blank-line blocks) on the
  normalized text, the initial choice follows the ordered rules: (c) if \<open>c > 5\<close> and
  \<open>c < 0.8 a\<close>; else (a) if \<open>a > b\<close> and \<open>a > 3\<close>; else (b) if \<open>b > 3\<close>; else (d) if
  \<open>d > b\<close>; else (a). For a document with one double line break and 60 line breaks in which
  candidate (a) has more than 3 paragraphs (more than 3 lines of at least 3 characters after
  trimming), the strategy finally chosen splits on the single line break: it is (a), or (c)
  when the first rule selects it, and neither safety override changes it.
\<close>

theorem C3_strategy_rules:
  fixes input :: string
  defines "n \<equiv> normalizeLineEndings input"
  defines "a \<equiv> length (result (singleNewlineMethod n))"
    and "b \<equiv> length (result (doubleNewlineMethod n))"
    and "c \<equiv> length (result (meaningfulLinesMethod n))"
    and "d \<equiv> length (result (paragraphBlocksMethod n))"
  defines "initial \<equiv> initialChoice (singleNewlineMethod n) (doubleNewlineMethod n)
                        (meaningfulLinesMethod n) (paragraphBlocksMethod n)"
  shows "(5 < c \<and> 5 * c < 4 * a \<longrightarrow> initial = meaningfulLinesMethod n)
    \<and> (\<not> (5 < c \<and> 5 * c < 4 * a) \<and> b < a \<and> 3 < a \<longrightarrow> initial = singleNewlineMethod n)
    \<and> (\<not> (5 < c \<and> 5 * c < 4 * a) \<and> \<not> (b < a \<and> 3 < a) \<and> 3 < b
          \<longrightarrow> initial = doubleNewlineMethod n)
    \<and> (\<not> (5 < c \<and> 5 * c < 4 * a) \<and> \<not> (b < a \<and> 3 < a) \<and> \<not> 3 < b \<and> b < d
          \<longrightarrow> initial = paragraphBlocksMethod n)
    \<and> (\<not> (5 < c \<and> 5 * c < 4 * a) \<and> \<not> (b < a \<and> 3 < a) \<and> \<not> 3 < b \<and> \<not> b < d
          \<longrightarrow> initial = singleNewlineMethod n)
    \<and> (doubleNewlineCount (splitInfo (splitTextIntoParagraphs input)) = 1
        \<and> singleNewlineCount (splitInfo (splitTextIntoParagraphs input)) = 60
        \<and> 3 < a
          \<longrightarrow> chooseMethod n = (if 5 < c \<and> 5 * c < 4 * a then meaningfulLinesMethod n
                                else singleNewlineMethod n)
              \<and> splitter (chooseMethod n) = SplitString [LF]
              \<and> paragraphs (splitTextIntoParagraphs input) = result (chooseMethod n)
              \<and> chosenMethod (splitInfo (splitTextIntoParagraphs input)) = name (chooseMethod n))"
proof -
  have rules: "initial = (if 5 < c \<and> 5 * c < 4 * a then meaningfulLinesMethod n
                 else if b < a \<and> 3 < a then singleNewlineMethod n
                 else if 3 < b then doubleNewlineMethod n
                 else if b < d then paragraphBlocksMethod n
                 else singleNewlineMethod n)"
    by (simp add: initial_def initialChoice_def a_def b_def c_def d_def Let_def)
  have particular: "chooseMethod n = (if 5 < c \<and> 5 * c < 4 * a then meaningfulLinesMethod n
                                else singleNewlineMethod n)"
    if h: "doubleNewlineCount (splitInfo (splitTextIntoParagraphs input)) = 1"
      "singleNewlineCount (splitInfo (splitTextIntoParagraphs input)) = 60" "3 < a"
  proof -
    from h(1,2) have cnt: "countMatches [LF, LF] n = 1" "countMatches [LF] n = 60"
      by (simp_all add: splitInfo_counts n_def)
    from candidate_bounds[of n] cnt have bd: "a \<le> 61" "c \<le> 61" "b \<le> 2"
      by (simp_all add: a_def b_def c_def)
    show ?thesis
    proof (cases "5 < c \<and> 5 * c < 4 * a")
      case True
      with rules have i: "initial = meaningfulLinesMethod n" by simp
      from True bd show ?thesis
        unfolding chooseMethod_def Let_def initial_def[symmetric] i
        by (simp add: safetyTooMany_def safetyTooFew_def c_def[symmetric] Let_def)
    next
      case False
      with rules h(3) bd have i: "initial = singleNewlineMethod n" by simp
      from False bd show ?thesis
        unfolding chooseMethod_def Let_def initial_def[symmetric] i
        by (auto simp add: safetyTooMany_def safetyTooFew_def a_def[symmetric] Let_def)
    qed
  qed
  show ?thesis
  proof (intro conjI impI)
    assume "doubleNewlineCount (splitInfo (splitTextIntoParagraphs input)) = 1
        \<and> singleNewlineCount (splitInfo (splitTextIntoParagraphs input)) = 60 \<and> 3 < a"
    then have p: "chooseMethod n = (if 5 < c \<and> 5 * c < 4 * a then meaningfulLinesMethod n
                                else singleNewlineMethod n)"
      using particular by blast
    show "chooseMethod n = (if 5 < c \<and> 5 * c < 4 * a then meaningfulLinesMethod n
                                else singleNewlineMethod n)" by (rule p)
    show "splitter (chooseMethod n) = SplitString [LF]"
      unfolding p by (simp add: method_splitters)
    show "paragraphs (splitTextIntoParagraphs input) = result (chooseMethod n)"
      by (simp add: splitInfo_counts n_def)
    show "chosenMethod (splitInfo (splitTextIntoParagraphs input)) = name (chooseMethod n)"
      by (simp add: splitInfo_counts n_def)
  qed (auto simp add: rules)
qed

text \<open>
  The theorem at a document of 1500 characters with one double line break and 60 line breaks
  whose 31 paragraph lines are all kept by candidate (a): the strategy chosen is the single
  line break.
\<close>

theorem C3_strategy_rules_witness:
  "doubleNewlineCount (splitInfo (splitTextIntoParagraphs paragraphLinesDocument)) = 1
   \<and> singleNewlineCount (splitInfo (splitTextIntoParagraphs paragraphLinesDocument)) = 60
   \<and> normalizedLength (splitInfo (splitTextIntoParagraphs paragraphLinesDocument)) = 1500
   \<and> 3 < length (result (singleNewlineMethod (normalizeLineEndings paragraphLinesDocument)))
   \<and> chosenMethod (splitInfo (splitTextIntoParagraphs paragraphLinesDocument))
       = ''Single newline ('' @ [CHR 0x5C] @ ''n) - Standard''"
proof -
  let ?d = "paragraphLinesDocument"
  have doc: "?d = CHR ''x'' # replicate 1320 (CHR ''x'') @ [LF, LF] @ ''abc''
                    @ blankLineBlocks ''abc'' (Suc 28)"
    by (simp add: paragraphLinesDocument_def)
  have n: "normalizeLineEndings ?d = ?d"
    and a: "length (result (singleNewlineMethod ?d)) = 31"
    and c: "length (result (meaningfulLinesMethod ?d)) = 1"
    and l: "length ?d = 1500"
    and dc: "countMatches [LF, LF] ?d = 1"
    and sc: "countMatches [LF] ?d = 60"
    unfolding doc using long_counts_abc[of 1320 28] by simp_all
  have h: "doubleNewlineCount (splitInfo (splitTextIntoParagraphs ?d)) = 1"
    "singleNewlineCount (splitInfo (splitTextIntoParagraphs ?d)) = 60"
    "normalizedLength (splitInfo (splitTextIntoParagraphs ?d)) = 1500"
    "3 < length (result (singleNewlineMethod (normalizeLineEndings ?d)))"
    by (simp_all add: splitInfo_counts n a l dc sc)
  from C3_strategy_rules[of ?d] h
  have "chooseMethod (normalizeLineEndings ?d)
          = (if 5 < length (result (meaningfulLinesMethod (normalizeLineEndings ?d)))
                \<and> 5 * length (result (meaningfulLinesMethod (normalizeLineEndings ?d)))
                    < 4 * length (result (singleNewlineMethod (normalizeLineEndings ?d)))
             then meaningfulLinesMethod (normalizeLineEndings ?d)
             else singleNewlineMethod (normalizeLineEndings ?d))"
    and "chosenMethod (splitInfo (splitTextIntoParagraphs ?d))
           = name (chooseMethod (normalizeLineEndings ?d))"
    by blast+
  then have "chosenMethod (splitInfo (splitTextIntoParagraphs ?d)) = name (singleNewlineMethod ?d)"
    by (simp add: n c)
  then have "chosenMethod (splitInfo (splitTextIntoParagraphs ?d))
               = ''Single newline ('' @ [CHR 0x5C] @ ''n) - Standard''"
    by (simp add: singleNewlineMethod_def)
  with h show ?thesis by blast
qed

text \<open>
  The last sentence of claim C3 as stated fails. The document \<open>shortLinesDocument\<close> has 1500
  characters, one double line break and 60 line breaks, as \<^verbatim>\<open>splitInfo\<close> itself reports them,
  but only its first line has 3 characters or more: candidate (a) has 1 paragraph, (b) has 2,
  (c) has 1 and (d) has 31, so the first three rules do not apply and the fourth chooses the
  blank-line blocks.
\<close>

theorem C3_short_lines_counterexample:
  "normalizedLength (splitInfo (splitTextIntoParagraphs shortLinesDocument)) = 1500
   \<and> doubleNewlineCount (splitInfo (splitTextIntoParagraphs shortLinesDocument)) = 1
   \<and> singleNewlineCount (splitInfo (splitTextIntoParagraphs shortLinesDocument)) = 60
   \<and> chosenMethod (splitInfo (splitTextIntoParagraphs shortLinesDocument))
       = ''Paragraph blocks (empty line separated)''
   \<and> chosenMethod (splitInfo (splitTextIntoParagraphs shortLinesDocument))
       \<noteq> ''Single newline ('' @ [CHR 0x5C] @ ''n) - Standard''"
proof -
  let ?d = "shortLinesDocument"
  have doc: "?d = CHR ''x'' # replicate 1350 (CHR ''x'') @ [LF, LF] @ ''ab''
                    @ blankLineBlocks ''ab'' (Suc 28)"
    by (simp add: shortLinesDocument_def)
  have n: "normalizeLineEndings ?d = ?d"
    and a: "length (result (singleNewlineMethod ?d)) = 1"
    and b: "length (result (doubleNewlineMethod ?d)) = 2"
    and c: "length (result (meaningfulLinesMethod ?d)) = 1"
    and d: "length (result (paragraphBlocksMethod ?d)) = 31"
    and l: "length ?d = 1500"
    and dc: "countMatches [LF, LF] ?d = 1"
    and sc: "countMatches [LF] ?d = 60"
    unfolding doc using long_counts_ab[of 1350 28] by simp_all
  have "chooseMethod ?d = paragraphBlocksMethod ?d"
    by (simp add: chooseMethod_def initialChoice_def safetyTooMany_def safetyTooFew_def
        Let_def a b c d)
  then have "chosenMethod (splitInfo (splitTextIntoParagraphs ?d))
               = ''Paragraph blocks (empty line separated)''"
    by (simp add: splitInfo_counts n paragraphBlocksMethod_def)
  then show ?thesis
    by (simp add: splitInfo_counts n l dc sc)
qed

section \<open>The safety overrides (claim C4)\<close>

text \<open>
  Claim C4, as the code has it. After the initial choice \<open>chosen0\<close>: when its count exceeds
  500 the choice becomes (b) if \<open>b\<close> is positive and less than a fifth of that count, else (c)
  if \<open>c\<close> is positive and less than a third of it, and otherwise stays. Then, when the count
  of the choice so far is under 5, the normalized text is longer than 1000 characters and
  candidate (a) has more than twice that count, the choice becomes (a); having exactly twice
  the count is not enough. Nothing else changes the choice.
\<close>

theorem C4_safety_overrides:
  fixes input :: string
  defines "n \<equiv> normalizeLineEndings input"
  defines "a \<equiv> length (result (singleNewlineMethod n))"
    and "b \<equiv> length (result (doubleNewlineMethod n))"
    and "c \<equiv> length (result (meaningfulLinesMethod n))"
  defines "chosen0 \<equiv> initialChoice (singleNewlineMethod n) (doubleNewlineMethod n)
                        (meaningfulLinesMethod n) (paragraphBlocksMethod n)"
  defines "chosen1 \<equiv> safetyTooMany (doubleNewlineMethod n) (meaningfulLinesMethod n) chosen0"
  shows "(500 < length (result chosen0) \<and> 0 < b \<and> 5 * b < length (result chosen0)
            \<longrightarrow> chosen1 = doubleNewlineMethod n)
    \<and> (500 < length (result chosen0) \<and> \<not> (0 < b \<and> 5 * b < length (result chosen0))
          \<and> 0 < c \<and> 3 * c < length (result chosen0)
            \<longrightarrow> chosen1 = meaningfulLinesMethod n)
    \<and> (\<not> 500 < length (result chosen0)
          \<or> (\<not> (0 < b \<and> 5 * b < length (result chosen0))
              \<and> \<not> (0 < c \<and> 3 * c < length (result chosen0)))
            \<longrightarrow> chosen1 = chosen0)
    \<and> (length (result chosen1) < 5 \<and> 1000 < length n \<and> 2 * length (result chosen1) < a
            \<longrightarrow> chooseMethod n = singleNewlineMethod n)
    \<and> (\<not> (length (result chosen1) < 5 \<and> 1000 < length n \<and> 2 * length (result chosen1) < a)
            \<longrightarrow> chooseMethod n = chosen1)
    \<and> paragraphs (splitTextIntoParagraphs input) = result (chooseMethod n)
    \<and> chosenMethod (splitInfo (splitTextIntoParagraphs input)) = name (chooseMethod n)"
proof -
  have many: "chosen1 = (if 500 < length (result chosen0)
                then (if 0 < b \<and> 5 * b < length (result chosen0) then doubleNewlineMethod n
                      else if 0 < c \<and> 3 * c < length (result chosen0) then meaningfulLinesMethod n
                      else chosen0)
                else chosen0)"
    by (simp add: chosen1_def safetyTooMany_def b_def c_def Let_def)
  have few: "chooseMethod n = (if length (result chosen1) < 5 \<and> 1000 < length n
                then (if 2 * length (result chosen1) < a then singleNewlineMethod n else chosen1)
                else chosen1)"
    by (simp add: chooseMethod_def safetyTooFew_def chosen1_def chosen0_def a_def Let_def
        mult.commute)
  show ?thesis
  proof (intro conjI impI)
    show "paragraphs (splitTextIntoParagraphs input) = result (chooseMethod n)"
      by (simp add: splitInfo_counts n_def)
    show "chosenMethod (splitInfo (splitTextIntoParagraphs input)) = name (chooseMethod n)"
      by (simp add: splitInfo_counts n_def)
  qed (auto simp add: many few)
qed

text \<open>
  The theorem at a document of 2515 characters in which both overrides apply: the blank-line
  blocks (503 paragraphs) give way to the double line break (1 paragraph), which gives way to
  the single line break (3 paragraphs).
\<close>

theorem C4_safety_overrides_witness:
  "500 < length (result (paragraphBlocksMethod (normalizeLineEndings threeParagraphsDocument)))
   \<and> 0 < length (result (doubleNewlineMethod (normalizeLineEndings threeParagraphsDocument)))
   \<and> 5 * length (result (doubleNewlineMethod (normalizeLineEndings threeParagraphsDocument)))
       < length (result (paragraphBlocksMethod (normalizeLineEndings threeParagraphsDocument)))
   \<and> length (result (doubleNewlineMethod (normalizeLineEndings threeParagraphsDocument))) < 5
   \<and> 1000 < length (normalizeLineEndings threeParagraphsDocument)
   \<and> 2 * length (result (doubleNewlineMethod (normalizeLineEndings threeParagraphsDocument)))
       < length (result (singleNewlineMethod (normalizeLineEndings threeParagraphsDocument)))
   \<and> initialChoice (singleNewlineMethod (normalizeLineEndings threeParagraphsDocument))
        (doubleNewlineMethod (normalizeLineEndings threeParagraphsDocument))
        (meaningfulLinesMethod (normalizeLineEndings threeParagraphsDocument))
        (paragraphBlocksMethod (normalizeLineEndings threeParagraphsDocument))
       = paragraphBlocksMethod (normalizeLineEndings threeParagraphsDocument)
   \<and> chosenMethod (splitInfo (splitTextIntoParagraphs threeParagraphsDocument))
       = ''Single newline ('' @ [CHR 0x5C] @ ''n) - Standard''"
proof -
  let ?d = "threeParagraphsDocument"
  have doc: "?d = ''abc'' @ blankLineBlocks ''abc'' (Suc 1) @ blankLineBlocks ''ab'' (Suc 499)"
    by (simp add: threeParagraphsDocument_def numeral_2_eq_2)
  have n: "normalizeLineEndings ?d = ?d"
    and a: "length (result (singleNewlineMethod ?d)) = 3"
    and b: "length (result (doubleNewlineMethod ?d)) = 1"
    and c: "length (result (meaningfulLinesMethod ?d)) = 0"
    and d: "length (result (paragraphBlocksMethod ?d)) = 503"
    and l: "length ?d = 2515"
    unfolding doc using spaced_counts[of 1 499] by simp_all
  have i: "initialChoice (singleNewlineMethod ?d) (doubleNewlineMethod ?d)
             (meaningfulLinesMethod ?d) (paragraphBlocksMethod ?d) = paragraphBlocksMethod ?d"
    by (simp add: initialChoice_def Let_def a b c d)
  from C4_safety_overrides[of ?d]
  have one: "500 < length (result (paragraphBlocksMethod ?d)) \<and> 0 < length (result (doubleNewlineMethod ?d))
          \<and> 5 * length (result (doubleNewlineMethod ?d)) < length (result (paragraphBlocksMethod ?d))
        \<longrightarrow> safetyTooMany (doubleNewlineMethod ?d) (meaningfulLinesMethod ?d) (paragraphBlocksMethod ?d)
              = doubleNewlineMethod ?d"
    unfolding n i by blast
  then have m: "safetyTooMany (doubleNewlineMethod ?d) (meaningfulLinesMethod ?d) (paragraphBlocksMethod ?d)
              = doubleNewlineMethod ?d"
    by (simp add: b d)
  from C4_safety_overrides[of ?d]
  have "length (result (doubleNewlineMethod ?d)) < 5 \<and> 1000 < length ?d
          \<and> 2 * length (result (doubleNewlineMethod ?d)) < length (result (singleNewlineMethod ?d))
        \<longrightarrow> chooseMethod ?d = singleNewlineMethod ?d"
    and nm: "chosenMethod (splitInfo (splitTextIntoParagraphs ?d)) = name (chooseMethod ?d)"
    unfolding n i m by blast+
  then have "chooseMethod ?d = singleNewlineMethod ?d" by (simp add: a b l)
  with nm have "chosenMethod (splitInfo (splitTextIntoParagraphs ?d))
                  = ''Single newline ('' @ [CHR 0x5C] @ ''n) - Standard''"
    by (simp add: singleNewlineMethod_def)
  then show ?thesis by (simp add: n i a b d l)
qed

text \<open>
  Claim C4 as stated fails at the boundary. In \<open>twoParagraphsDocument\<close> (2509 characters) the
  first override selects the double line break with 1 paragraph, and candidate (a) has 2
  paragraphs, twice as many: (a) has at least double the count, but the code asks for more
  than double and keeps the double line break.
\<close>

theorem C4_exactly_double_counterexample:
  "length (result (doubleNewlineMethod (normalizeLineEndings twoParagraphsDocument))) < 5
   \<and> 1000 < length (normalizeLineEndings twoParagraphsDocument)
   \<and> 2 * length (result (doubleNewlineMethod (normalizeLineEndings twoParagraphsDocument)))
       \<le> length (result (singleNewlineMethod (normalizeLineEndings twoParagraphsDocument)))
   \<and> safetyTooMany (doubleNewlineMethod (normalizeLineEndings twoParagraphsDocument))
        (meaningfulLinesMethod (normalizeLineEndings twoParagraphsDocument))
        (initialChoice (singleNewlineMethod (normalizeLineEndings twoParagraphsDocument))
           (doubleNewlineMethod (normalizeLineEndings twoParagraphsDocument))
           (meaningfulLinesMethod (normalizeLineEndings twoParagraphsDocument))
           (paragraphBlocksMethod (normalizeLineEndings twoParagraphsDocument)))
       = doubleNewlineMethod (normalizeLineEndings twoParagraphsDocument)
   \<and> chosenMethod (splitInfo (splitTextIntoParagraphs twoParagraphsDocument))
       = ''Double newline ('' @ [CHR 0x5C] @ ''n'' @ [CHR 0x5C] @ ''n) - Spaced paragraphs''
   \<and> paragraphs (splitTextIntoParagraphs twoParagraphsDocument)
       \<noteq> result (singleNewlineMethod (normalizeLineEndings twoParagraphsDocument))"
proof -
  let ?d = "twoParagraphsDocument"
  have doc: "?d = ''abc'' @ blankLineBlocks ''abc'' (Suc 0) @ blankLineBlocks ''ab'' (Suc 499)"
    by (simp add: twoParagraphsDocument_def)
  have n: "normalizeLineEndings ?d = ?d"
    and a: "length (result (singleNewlineMethod ?d)) = 2"
    and b: "length (result (doubleNewlineMethod ?d)) = 1"
    and c: "length (result (meaningfulLinesMethod ?d)) = 0"
    and d: "length (result (paragraphBlocksMethod ?d)) = 502"
    and l: "length ?d = 2509"
    unfolding doc using spaced_counts[of 0 499] by simp_all
  have i: "initialChoice (singleNewlineMethod ?d) (doubleNewlineMethod ?d)
             (meaningfulLinesMethod ?d) (paragraphBlocksMethod ?d) = paragraphBlocksMethod ?d"
    by (simp add: initialChoice_def Let_def a b c d)
  have m: "safetyTooMany (doubleNewlineMethod ?d) (meaningfulLinesMethod ?d) (paragraphBlocksMethod ?d)
              = doubleNewlineMethod ?d"
    by (simp add: safetyTooMany_def Let_def b c d)
  have ch: "chooseMethod ?d = doubleNewlineMethod ?d"
    by (simp add: chooseMethod_def Let_def i m safetyTooFew_def a b)
  have nm: "chosenMethod (splitInfo (splitTextIntoParagraphs ?d))
       = ''Double newline ('' @ [CHR 0x5C] @ ''n'' @ [CHR 0x5C] @ ''n) - Spaced paragraphs''"
    by (simp add: splitInfo_counts n ch doubleNewlineMethod_def)
  have "length (paragraphs (splitTextIntoParagraphs ?d))
          \<noteq> length (result (singleNewlineMethod ?d))"
    by (simp add: splitInfo_counts n ch a b)
  then have ne: "paragraphs (splitTextIntoParagraphs ?d) \<noteq> result (singleNewlineMethod ?d)"
    by auto
  from nm ne show ?thesis by (simp add: n i m a b l)
qed

end
